theory Spec2Isabelle
  imports Main "HOL-Library.Char_ord" "HOL-Library.List_Lexorder" "HOL-Library.AList" "HOL-Library.Sublist"
begin

section \<open>The regular expressions of the sources\<close>

text \<open>
  The sources match strings with four JavaScript regular expressions, all built from
  literal characters, the wildcard \<^verbatim>\<open>.\<close> and the greedy quantifiers \<^verbatim>\<open>.*\<close> and
  \<^verbatim>\<open>.+\<close>, the quantified wildcards being capture groups or not.  A pattern is a list
  of such items.  \<open>Many lo cap\<close> is a greedy run of at least \<open>lo\<close> wildcard characters
  (\<open>lo = 0\<close> for \<^verbatim>\<open>.*\<close>, \<open>lo = 1\<close> for \<^verbatim>\<open>.+\<close>), captured when \<open>cap\<close> holds.

  Strings are lists of 8-bit characters.  The wildcard of JavaScript matches every
  character but the line terminators; of those, line feed and carriage return exist
  in this alphabet.
\<close>

datatype item = Chr char | AnyChar | Many nat bool

definition is_dot :: "char \<Rightarrow> bool" where
  "is_dot c = (c \<noteq> CHR 0x0A \<and> c \<noteq> CHR 0x0D)"

text \<open>
  Backtracking of a greedy quantifier: \<open>backoff f lo d\<close> tries the run lengths
  \<open>lo + d\<close>, \<open>lo + d - 1\<close>, ..., \<open>lo\<close> in this order and returns the first success of
  the continuation \<open>f\<close>.
\<close>

primrec backoff :: "(nat \<Rightarrow> 'a option) \<Rightarrow> nat \<Rightarrow> nat \<Rightarrow> 'a option" where
  "backoff f lo 0 = f lo"
| "backoff f lo (Suc d) =
     (case f (lo + Suc d) of Some r \<Rightarrow> Some r | None \<Rightarrow> backoff f lo d)"

text \<open>
  \<open>match_here p s\<close> matches the pattern \<open>p\<close> against a prefix of \<open>s\<close> the way the
  backtracking matcher of JavaScript does, and returns the captured groups in the
  order of their opening parentheses (group 1 first).
\<close>

fun match_here :: "item list \<Rightarrow> string \<Rightarrow> string list option" where
  "match_here [] s = Some []"
| "match_here (Chr c # p) s =
     (case s of [] \<Rightarrow> None | x # xs \<Rightarrow> if x = c then match_here p xs else None)"
| "match_here (AnyChar # p) s =
     (case s of [] \<Rightarrow> None | x # xs \<Rightarrow> if is_dot x then match_here p xs else None)"
| "match_here (Many lo cap # p) s =
     (let n = length (takeWhile is_dot s) in
      if n < lo then None
      else backoff
             (\<lambda>k. map_option (\<lambda>cs. if cap then take k s # cs else cs)
                    (match_here p (drop k s)))
             lo (n - lo))"

text \<open>
  \<^verbatim>\<open>RegExp.prototype.exec\<close> of a pattern without anchors: the match at the leftmost
  start position that has one.  \<^verbatim>\<open>RegExp.prototype.test\<close> says whether there is one.
\<close>

fun exec :: "item list \<Rightarrow> string \<Rightarrow> string list option" where
  "exec p [] = match_here p []"
| "exec p (c # s) =
     (case match_here p (c # s) of Some cs \<Rightarrow> Some cs | None \<Rightarrow> exec p s)"

definition test :: "item list \<Rightarrow> string \<Rightarrow> bool" where
  "test p s = (exec p s \<noteq> None)"

text \<open>\<open>grp cs i\<close> is element \<open>i\<close> of the array \<^verbatim>\<open>exec\<close> returns, for \<open>i \<ge> 1\<close>.\<close>

definition grp :: "string list \<Rightarrow> nat \<Rightarrow> string" where
  "grp cs i = cs ! (i - 1)"

section \<open>Dependency\<close>

text \<open>
  The class \<^verbatim>\<open>Dependency\<close>: a name, and a scope and a version that are
  \<^verbatim>\<open>undefined\<close> (\<open>None\<close>) when the constructor is not given them.
\<close>

record Dependency =
  name :: string
  scope :: "string option"
  version :: "string option"

definition SCOPE_NAME_VERSION_RE :: "item list" where
  "SCOPE_NAME_VERSION_RE =
     [Chr (CHR ''@''), Many 1 True, Chr (CHR ''/''), Many 0 True, Chr (CHR ''@''), Many 0 True]"

definition SCOPE_NAME_NO_VERSION_RE :: "item list" where
  "SCOPE_NAME_NO_VERSION_RE = [Chr (CHR ''@''), Many 1 True, Chr (CHR ''/''), Many 1 True]"

definition NAME_VERSION_RE :: "item list" where
  "NAME_VERSION_RE = [Many 0 True, Chr (CHR ''@''), Many 0 True]"

text \<open>
  \<^verbatim>\<open>Dependency.fromString\<close>, branch by branch.  The third branch passes the scope it
  captured as \<^verbatim>\<open>version\<close>, as the source does.
\<close>

definition fromString :: "string \<Rightarrow> Dependency" where
  "fromString str =
     (if test SCOPE_NAME_VERSION_RE str then
        (case exec SCOPE_NAME_VERSION_RE str of
           Some scopeNameVersion \<Rightarrow>
             \<lparr>name = grp scopeNameVersion 2,
              scope = Some (grp scopeNameVersion 1),
              version = Some (grp scopeNameVersion 3)\<rparr>
         | None \<Rightarrow> \<lparr>name = str, scope = None, version = None\<rparr>)
      else if test NAME_VERSION_RE str then
        (case exec NAME_VERSION_RE str of
           Some nameVersion \<Rightarrow>
             \<lparr>name = grp nameVersion 1, scope = None, version = Some (grp nameVersion 2)\<rparr>
         | None \<Rightarrow> \<lparr>name = str, scope = None, version = None\<rparr>)
      else if test SCOPE_NAME_NO_VERSION_RE str then
        (case exec SCOPE_NAME_NO_VERSION_RE str of
           Some scopeName \<Rightarrow>
             \<lparr>name = grp scopeName 2, scope = None, version = Some (grp scopeName 1)\<rparr>
         | None \<Rightarrow> \<lparr>name = str, scope = None, version = None\<rparr>)
      else \<lparr>name = str, scope = None, version = None\<rparr>)"

text \<open>
  \<^verbatim>\<open>Dependency.same\<close> compares with \<^verbatim>\<open>===\<close>; the option \<^verbatim>\<open>ignoreVersion\<close> is the
  third argument.
\<close>

definition same :: "Dependency \<Rightarrow> Dependency \<Rightarrow> bool \<Rightarrow> bool" where
  "same depA depB ignoreVersion =
     (name depA = name depB \<and> scope depA = scope depB \<and>
      (ignoreVersion \<or> version depA = version depB))"

definition withoutVersion :: "Dependency \<Rightarrow> Dependency" where
  "withoutVersion this = \<lparr>name = name this, scope = scope this, version = None\<rparr>"

text \<open>
  \<^verbatim>\<open>toString\<close> tests scope and version for truthiness: \<^verbatim>\<open>undefined\<close> and the empty
  string both count as absent.
\<close>

definition truthy :: "string option \<Rightarrow> bool" where
  "truthy x = (case x of None \<Rightarrow> False | Some s \<Rightarrow> s \<noteq> [])"

definition toString :: "Dependency \<Rightarrow> string" where
  "toString this =
     (case scope this of
        None \<Rightarrow> []
      | Some s \<Rightarrow> if s \<noteq> [] then ''@'' @ s @ ''/'' else [])
     @ name this
     @ (case version this of
          None \<Rightarrow> []
        | Some v \<Rightarrow> if v \<noteq> [] then ''@'' @ v else [])"

text \<open>
  The dependency grammar \<^verbatim>\<open>[@scope/]name[@version]\<close>: a token holds no \<^verbatim>\<open>@\<close>, no
  \<^verbatim>\<open>/\<close> and no line terminator, and a scope or version that is present is not empty.
\<close>

definition token :: "string \<Rightarrow> bool" where
  "token s = (\<forall>c\<in>set s. is_dot c \<and> c \<noteq> CHR ''@'' \<and> c \<noteq> CHR ''/'')"

definition wellformed :: "Dependency \<Rightarrow> bool" where
  "wellformed d =
     (token (name d) \<and>
      (case scope d of None \<Rightarrow> True | Some s \<Rightarrow> s \<noteq> [] \<and> token s) \<and>
      (case version d of None \<Rightarrow> True | Some v \<Rightarrow> v \<noteq> [] \<and> token v))"

section \<open>utils: getDownloadedPluginPath\<close>

text \<open>
  \<^verbatim>\<open>path.join\<close> of Node.js on a POSIX platform: the arguments that are not empty are
  joined with \<^verbatim>\<open>/\<close> and the result is normalized.  Normalization works on the
  segments between slashes: empty segments and \<^verbatim>\<open>.\<close> are dropped, \<^verbatim>\<open>..\<close> removes the
  segment before it, or stays when there is none to remove and the path is relative.
\<close>

fun segments :: "string \<Rightarrow> string list" where
  "segments [] = [[]]"
| "segments (c # s) =
     (if c = CHR ''/'' then [] # segments s
      else (case segments s of [] \<Rightarrow> [[c]] | seg # segs \<Rightarrow> (c # seg) # segs))"

fun unsegments :: "string list \<Rightarrow> string" where
  "unsegments [] = []"
| "unsegments [x] = x"
| "unsegments (x # y # r) = x @ CHR ''/'' # unsegments (y # r)"

fun normalizeString :: "bool \<Rightarrow> string list \<Rightarrow> string list \<Rightarrow> string list" where
  "normalizeString allowAboveRoot res [] = res"
| "normalizeString allowAboveRoot res (seg # segs) =
     (if seg = [] \<or> seg = ''.'' then normalizeString allowAboveRoot res segs
      else if seg = ''..'' then
        (if res \<noteq> [] \<and> last res \<noteq> ''..''
         then normalizeString allowAboveRoot (butlast res) segs
         else if allowAboveRoot then normalizeString allowAboveRoot (res @ [''..'']) segs
         else normalizeString allowAboveRoot res segs)
      else normalizeString allowAboveRoot (res @ [seg]) segs)"

definition normalize :: "string \<Rightarrow> string" where
  "normalize path =
     (if path = [] then ''.''
      else
        let isAbsolute = (hd path = CHR ''/'');
            trailingSeparator = (last path = CHR ''/'');
            p = unsegments (normalizeString (\<not> isAbsolute) [] (segments path))
        in if p = [] then (if isAbsolute then ''/'' else if trailingSeparator then ''./'' else ''.'')
           else (if isAbsolute then ''/'' else []) @ p @ (if trailingSeparator then ''/'' else []))"

definition path_join :: "string list \<Rightarrow> string" where
  "path_join args =
     (let joined = filter (\<lambda>arg. arg \<noteq> []) args
      in if joined = [] then ''.'' else normalize (unsegments joined))"

text \<open>
  A plugin origin is an object of type \<^verbatim>\<open>any\<close>; the fields the function reads are
  strings or \<^verbatim>\<open>undefined\<close>.
\<close>

record PluginOrigin =
  origin_type :: "string option"
  origin_name :: "string option"
  origin_scope :: "string option"
  origin_url :: "string option"
  origin_version :: "string option"

datatype error = Error string | TypeError

text \<open>A value converted to a string, as \<^verbatim>\<open>RegExp.prototype.test\<close> and a template do.\<close>

definition js_string :: "string option \<Rightarrow> string" where
  "js_string x = (case x of None \<Rightarrow> ''undefined'' | Some s \<Rightarrow> s)"

text \<open>\<^verbatim>\<open>/.*\/(.*).git/\<close>: the dot before \<^verbatim>\<open>git\<close> is a wildcard.\<close>

definition gitDirectoryRe :: "item list" where
  "gitDirectoryRe =
     [Many 0 False, Chr (CHR ''/''), Many 0 True, AnyChar,
      Chr (CHR ''g''), Chr (CHR ''i''), Chr (CHR ''t'')]"

text \<open>
  \<open>downloadPath\<close> is \<open>None\<close> while the variable is \<^verbatim>\<open>undefined\<close>.  \<^verbatim>\<open>path.join\<close>
  throws a \<^verbatim>\<open>TypeError\<close> on an argument that is not a string.
\<close>

definition downloadPath :: "PluginOrigin \<Rightarrow> error + string option" where
  "downloadPath pluginOrigin =
     (if origin_type pluginOrigin = Some ''npm'' then
        (if truthy (origin_scope pluginOrigin) then
           (case origin_name pluginOrigin of
              None \<Rightarrow> Inl TypeError
            | Some n \<Rightarrow>
                Inr (Some (path_join [''node_modules'', ''@'' @ js_string (origin_scope pluginOrigin), n])))
         else
           (case origin_name pluginOrigin of
              None \<Rightarrow> Inl TypeError
            | Some n \<Rightarrow> Inr (Some (path_join [''node_modules'', n]))))
      else if origin_type pluginOrigin = Some ''git'' then
        (if truthy (origin_version pluginOrigin) \<and>
            test gitDirectoryRe (js_string (origin_url pluginOrigin))
         then
           (case exec gitDirectoryRe (js_string (origin_url pluginOrigin)) of
              Some m \<Rightarrow> Inr (Some (grp m 1))
            | None \<Rightarrow> Inr None)
         else Inr None)
      else Inr None)"

definition getDownloadedPluginPath :: "PluginOrigin \<Rightarrow> error + string" where
  "getDownloadedPluginPath pluginOrigin =
     (case downloadPath pluginOrigin of
        Inl e \<Rightarrow> Inl e
      | Inr None \<Rightarrow>
          Inl (Error (''Unsupported plugin origin type : '' @ js_string (origin_type pluginOrigin)))
      | Inr (Some p) \<Rightarrow>
          if p = []
          then Inl (Error (''Unsupported plugin origin type : '' @ js_string (origin_type pluginOrigin)))
          else Inr p)"

text \<open>
  A path segment that normalization leaves alone: not empty, without slash, and
  neither \<^verbatim>\<open>.\<close> nor \<^verbatim>\<open>..\<close>.
\<close>

definition segment :: "string \<Rightarrow> bool" where
  "segment s = (s \<noteq> [] \<and> CHR ''/'' \<notin> set s \<and> s \<noteq> ''.'' \<and> s \<noteq> ''..'')"

text \<open>
  The directory a git url names: group 1 of the leftmost match of \<^verbatim>\<open>gitDirectoryRe\<close>,
  when there is a match and the group is not empty.
\<close>

definition gitDirectory :: "string \<Rightarrow> string option" where
  "gitDirectory url =
     (case exec gitDirectoryRe url of
        None \<Rightarrow> None
      | Some m \<Rightarrow> if grp m 1 = [] then None else Some (grp m 1))"

section \<open>BaseGit\<close>

subsection \<open>The working copy, the repository and the remotes\<close>

text \<open>
  \<^verbatim>\<open>BaseGit\<close> drives git through \<^verbatim>\<open>simple-git\<close> in the directory \<^verbatim>\<open>this.path\<close>.  The
  state it acts on is made explicit: the files of that directory (named relative to
  it), its \<^verbatim>\<open>.git\<close> directory when there is one, and the repositories behind the
  urls.  A tree maps file names to contents; a commit is a tree with its message and
  parent.
\<close>

type_synonym tree = "(string \<times> string) list"

datatype commit = Commit (tree_of: tree) (message: string) (parent: "commit option")

fun ancestors :: "commit \<Rightarrow> commit list" where
  "ancestors (Commit t m None) = [Commit t m None]"
| "ancestors (Commit t m (Some p)) = Commit t m (Some p) # ancestors p"

text \<open>
  What answers at a url: a repository serving its branches, or one that denies access.
  A url that is not listed cannot be reached.
\<close>

datatype remote_end = Denied | Serving "(string \<times> commit) list"

text \<open>
  The \<^verbatim>\<open>.git\<close> directory: the remotes by name, the remote-tracking refs by name
  (\<^verbatim>\<open>upstream/master\<close>), the branch that is checked out and its tip (\<open>None\<close> while the
  branch has no commit), and the index.  The code never creates or checks out another
  branch, so the checked-out branch is the only local one.
\<close>

record git_dir =
  remotes :: "(string \<times> string) list"
  tracking :: "(string \<times> commit) list"
  current_branch :: string
  head :: "commit option"
  index :: tree

text \<open>
  The installed git is part of the state as far as its wording matters to the class:
  \<open>git_says\<close> is what it prints, before the name of the ref, when the remote lacks the
  ref that is fetched.  Gits differ in it: the older ones print
  \<^verbatim>\<open>fatal: Couldn't find remote ref\<close>, the newer ones \<^verbatim>\<open>fatal: couldn't find remote ref\<close>.
\<close>

record world =
  worktree :: tree
  dotgit :: "git_dir option"
  hosts :: "(string \<times> remote_end) list"
  git_says :: string

text \<open>The calls made to \<^verbatim>\<open>simple-git\<close> and to \<^verbatim>\<open>writeFile\<close>, with their arguments.\<close>

datatype call =
    Init
  | AddRemote string string
  | Raw "string list"
  | Fetch string string
  | Reset "string list"
  | Add string
  | GitCommit string
  | Push string string
  | WriteFile string string

text \<open>
  An asynchronous function that is awaited: from a state it returns or throws, leaves a
  new state, and has made some calls.  \<open>io_then\<close> is \<^verbatim>\<open>await m; k\<close>, \<open>io_catch\<close> is
  \<^verbatim>\<open>try { await m } catch (e) { h }\<close>, \<open>io_when\<close> is an \<^verbatim>\<open>if\<close> without \<^verbatim>\<open>else\<close>.
\<close>

type_synonym 'a io = "world \<Rightarrow> (error + 'a) \<times> world \<times> call list"

definition io_return :: "'a \<Rightarrow> 'a io" where
  "io_return x w = (Inr x, w, [])"

definition io_throw :: "error \<Rightarrow> 'a io" where
  "io_throw e w = (Inl e, w, [])"

definition io_then :: "'a io \<Rightarrow> 'b io \<Rightarrow> 'b io" where
  "io_then m k w =
     (case m w of
        (Inl e, w1, t1) \<Rightarrow> (Inl e, w1, t1)
      | (Inr x, w1, t1) \<Rightarrow> (case k w1 of (r, w2, t2) \<Rightarrow> (r, w2, t1 @ t2)))"

definition io_catch :: "'a io \<Rightarrow> (error \<Rightarrow> 'a io) \<Rightarrow> 'a io" where
  "io_catch m h w =
     (case m w of
        (Inl e, w1, t1) \<Rightarrow> (case h e w1 of (r, w2, t2) \<Rightarrow> (r, w2, t1 @ t2))
      | (Inr x, w1, t1) \<Rightarrow> (Inr x, w1, t1))"

definition io_when :: "(world \<Rightarrow> bool) \<Rightarrow> unit io \<Rightarrow> unit io" where
  "io_when c m w = (if c w then m w else io_return () w)"

subsection \<open>The git commands the class uses\<close>

text \<open>
  The commands as git documents them, as far as the class can observe them.  Each is
  one call.  A command other than \<^verbatim>\<open>init\<close> fails outside a repository.
\<close>

definition git_cmd :: "call \<Rightarrow> (git_dir \<Rightarrow> world \<Rightarrow> error + world) \<Rightarrow> unit io" where
  "git_cmd c f w =
     (case dotgit w of
        None \<Rightarrow> (Inl (Error ''fatal: not a git repository''), w, [c])
      | Some g \<Rightarrow>
          (case f g w of Inl e \<Rightarrow> (Inl e, w, [c]) | Inr w' \<Rightarrow> (Inr (), w', [c])))"

definition empty_git_dir :: git_dir where
  "empty_git_dir =
     \<lparr>remotes = [], tracking = [], current_branch = ''master'', head = None, index = []\<rparr>"

definition initAsync :: "unit io" where
  "initAsync w =
     (Inr (),
      w\<lparr>dotgit := Some (case dotgit w of None \<Rightarrow> empty_git_dir | Some g \<Rightarrow> g)\<rparr>,
      [Init])"

definition addRemoteAsync :: "string \<Rightarrow> string \<Rightarrow> unit io" where
  "addRemoteAsync remote url =
     git_cmd (AddRemote remote url)
       (\<lambda>g w. case map_of (remotes g) remote of
                Some u \<Rightarrow> Inl (Error (''fatal: remote '' @ remote @ '' already exists.''))
              | None \<Rightarrow> Inr (w\<lparr>dotgit := Some (g\<lparr>remotes := remotes g @ [(remote, url)]\<rparr>)\<rparr>))"

text \<open>\<^verbatim>\<open>git remote set-url\<close>, the one raw command of the class.\<close>

definition rawAsync :: "string list \<Rightarrow> unit io" where
  "rawAsync args =
     git_cmd (Raw args)
       (\<lambda>g w. case args of
                [c1, c2, remote, url] \<Rightarrow>
                  if c1 = ''remote'' \<and> c2 = ''set-url'' then
                    (case map_of (remotes g) remote of
                       None \<Rightarrow> Inl (Error (''fatal: No such remote '' @ remote))
                     | Some u \<Rightarrow>
                         Inr (w\<lparr>dotgit := Some (g\<lparr>remotes := AList.update remote url (remotes g)\<rparr>)\<rparr>))
                  else Inl (Error ''git: command not modelled'')
              | _ \<Rightarrow> Inl (Error ''git: command not modelled''))"

text \<open>
  Reaching the repository at a url, as \<^verbatim>\<open>fetch\<close> and \<^verbatim>\<open>push\<close> do first: its branches, or
  git's message when it cannot be reached or denies access.
\<close>

definition contact :: "world \<Rightarrow> string \<Rightarrow> error + (string \<times> commit) list" where
  "contact w url =
     (case map_of (hosts w) url of
        None \<Rightarrow> Inl (Error ''fatal: Could not read from remote repository.'')
      | Some Denied \<Rightarrow> Inl (Error ''fatal: Authentication failed'')
      | Some (Serving brs) \<Rightarrow> Inr brs)"

text \<open>
  \<^verbatim>\<open>git fetch remote branch\<close> stores the tip of the remote's branch in the
  remote-tracking ref, and fails with git's message when the remote has no such branch.
\<close>

definition fetchAsync :: "string \<Rightarrow> string \<Rightarrow> unit io" where
  "fetchAsync remote br =
     git_cmd (Fetch remote br)
       (\<lambda>g w. case map_of (remotes g) remote of
                None \<Rightarrow> Inl (Error (''fatal: '' @ remote @ '' does not appear to be a git repository''))
              | Some url \<Rightarrow>
                  (case contact w url of
                     Inl e \<Rightarrow> Inl e
                   | Inr brs \<Rightarrow>
                       (case map_of brs br of
                          None \<Rightarrow> Inl (Error (git_says w @ br))
                        | Some c \<Rightarrow>
                            Inr (w\<lparr>dotgit := Some
                                   (g\<lparr>tracking := AList.update (remote @ ''/'' @ br) c (tracking g)\<rparr>)\<rparr>))))"

text \<open>
  \<^verbatim>\<open>git reset --hard ref\<close> moves the checked-out branch to the commit, and makes the
  index and every tracked file equal to the commit's tree.  Files git does not track
  (not in the index before, not in the commit) stay as they are.
\<close>

definition resolve_ref :: "git_dir \<Rightarrow> string \<Rightarrow> commit option" where
  "resolve_ref g ref =
     (case map_of (tracking g) ref of
        Some c \<Rightarrow> Some c
      | None \<Rightarrow> if ref = current_branch g then head g else None)"

definition resetAsync :: "string list \<Rightarrow> unit io" where
  "resetAsync args =
     git_cmd (Reset args)
       (\<lambda>g w. case args of
                [mode, ref] \<Rightarrow>
                  if mode = ''--hard'' then
                    (case resolve_ref g ref of
                       None \<Rightarrow> Inl (Error (''fatal: ambiguous argument '' @ ref @ '': unknown revision''))
                     | Some c \<Rightarrow>
                         Inr (w\<lparr>worktree :=
                                  tree_of c @
                                  filter (\<lambda>(p, x). p \<notin> fst ` set (tree_of c) \<and> p \<notin> fst ` set (index g))
                                    (worktree w),
                                dotgit := Some (g\<lparr>head := Some c, index := tree_of c\<rparr>)\<rparr>))
                  else Inl (Error ''git: command not modelled'')
              | _ \<Rightarrow> Inl (Error ''git: command not modelled''))"

definition addAsync :: "string \<Rightarrow> unit io" where
  "addAsync file =
     git_cmd (Add file)
       (\<lambda>g w. case map_of (worktree w) file of
                Some content \<Rightarrow>
                  Inr (w\<lparr>dotgit := Some (g\<lparr>index := AList.update file content (index g)\<rparr>)\<rparr>)
              | None \<Rightarrow>
                  if file \<in> fst ` set (index g)
                  then Inr (w\<lparr>dotgit := Some (g\<lparr>index := AList.delete file (index g)\<rparr>)\<rparr>)
                  else Inl (Error (''fatal: pathspec '' @ file @ '' did not match any files'')))"

text \<open>
  \<^verbatim>\<open>git commit\<close> records the index on top of the tip.  With nothing staged git makes no
  commit; this is taken to pass without an error, as git prints it on its standard output.
\<close>

definition commitAsync :: "string \<Rightarrow> unit io" where
  "commitAsync msg =
     git_cmd (GitCommit msg)
       (\<lambda>g w. if set (index g) = set (case head g of None \<Rightarrow> [] | Some h \<Rightarrow> tree_of h)
              then Inr w
              else Inr (w\<lparr>dotgit := Some (g\<lparr>head := Some (Commit (index g) msg (head g))\<rparr>)\<rparr>))"

text \<open>
  \<^verbatim>\<open>git push remote branch\<close> sends the local branch of that name.  The remote takes it
  when it has no such branch or when its tip is an ancestor of the new one, and the
  remote-tracking ref follows.
\<close>

definition pushAsync :: "string \<Rightarrow> string \<Rightarrow> unit io" where
  "pushAsync remote br =
     git_cmd (Push remote br)
       (\<lambda>g w. case map_of (remotes g) remote of
                None \<Rightarrow> Inl (Error (''fatal: '' @ remote @ '' does not appear to be a git repository''))
              | Some url \<Rightarrow>
                  (case contact w url of
                     Inl e \<Rightarrow> Inl e
                   | Inr brs \<Rightarrow>
                       (case (if br = current_branch g then head g else None) of
                          None \<Rightarrow> Inl (Error (''error: src refspec '' @ br @ '' does not match any''))
                        | Some c \<Rightarrow>
                            if (case map_of brs br of None \<Rightarrow> True | Some old \<Rightarrow> old \<in> set (ancestors c))
                            then Inr (w\<lparr>hosts := AList.update url (Serving (AList.update br c brs)) (hosts w),
                                        dotgit := Some
                                          (g\<lparr>tracking := AList.update (remote @ ''/'' @ br) c (tracking g)\<rparr>)\<rparr>)
                            else Inl (Error (''error: failed to push some refs to '' @ url)))))"

text \<open>
  \<^verbatim>\<open>writeFile\<close> of \<^verbatim>\<open>./fs-util\<close> is not among the sources; it is taken to write the
  content to the file.  \<^verbatim>\<open>fs.existsSync\<close> looks the file up.
\<close>

definition writeFile :: "string \<Rightarrow> string \<Rightarrow> unit io" where
  "writeFile file content w =
     (Inr (), w\<lparr>worktree := AList.update file content (worktree w)\<rparr>, [WriteFile file content])"

definition existsSync :: "string \<Rightarrow> world \<Rightarrow> bool" where
  "existsSync file w =
     (if file = ''.git'' then dotgit w \<noteq> None else map_of (worktree w) file \<noteq> None)"

subsection \<open>The class\<close>

definition GIT_REMOTE_NAME :: string where
  "GIT_REMOTE_NAME = ''upstream''"

definition README :: string where
  "README = ''### Cauldron Repository''"

record BaseGit =
  repository :: string
  branch :: string

text \<open>The constructor; the branch defaults to \<^verbatim>\<open>master\<close>.\<close>

definition new_BaseGit :: "string \<Rightarrow> string option \<Rightarrow> BaseGit" where
  "new_BaseGit repo br =
     \<lparr>repository = repo, branch = (case br of None \<Rightarrow> ''master'' | Some b \<Rightarrow> b)\<rparr>"

definition push :: "BaseGit \<Rightarrow> unit io" where
  "push this = pushAsync GIT_REMOTE_NAME (branch this)"

definition doInitialCommit :: "BaseGit \<Rightarrow> unit io" where
  "doInitialCommit this =
     io_when (\<lambda>w. \<not> existsSync ''README.md'' w)
       (io_then (writeFile ''README.md'' README)
       (io_then (addAsync ''README.md'')
       (io_then (commitAsync ''First Commit!'')
                (push this))))"

text \<open>
  The error as the handler sees it: \<^verbatim>\<open>e + ''\<close>, tested against
  \<^verbatim>\<open>/Couldn't find remote ref master/\<close>.
\<close>

definition error_string :: "error \<Rightarrow> string" where
  "error_string e = (case e of Error msg \<Rightarrow> ''Error: '' @ msg | TypeError \<Rightarrow> ''TypeError'')"

definition no_remote_ref_re :: "item list" where
  "no_remote_ref_re = map Chr ''Couldn't find remote ref master''"

text \<open>
  \<^verbatim>\<open>sync\<close> in its three parts: the statements before the \<^verbatim>\<open>try\<close>, the fetch with its
  handler, and the reset.
\<close>

definition sync_setup :: "BaseGit \<Rightarrow> unit io" where
  "sync_setup this =
     io_then
       (io_when (\<lambda>w. \<not> existsSync ''.git'' w)
          (io_then initAsync (addRemoteAsync GIT_REMOTE_NAME (repository this))))
       (rawAsync [''remote'', ''set-url'', GIT_REMOTE_NAME, repository this])"

definition sync_fetch :: "BaseGit \<Rightarrow> unit io" where
  "sync_fetch this =
     io_catch (fetchAsync GIT_REMOTE_NAME ''master'')
       (\<lambda>e. if test no_remote_ref_re (error_string e)
            then doInitialCommit this
            else io_throw e)"

definition sync :: "BaseGit \<Rightarrow> unit io" where
  "sync this =
     io_then (sync_setup this)
    (io_then (sync_fetch this)
             (resetAsync [''--hard'', GIT_REMOTE_NAME @ ''/master'']))"

subsection \<open>What the properties speak of\<close>

text \<open>
  The tip and the index of the working copy, the files git tracks there, the tip
  of a branch of the repository at a url, and a repository that answers and has no such
  branch (one without any commit has none).
\<close>

definition local_head :: "world \<Rightarrow> commit option" where
  "local_head w = (case dotgit w of None \<Rightarrow> None | Some g \<Rightarrow> head g)"



definition remote_branch :: "world \<Rightarrow> string \<Rightarrow> string \<Rightarrow> commit option" where
  "remote_branch w url br =
     (case map_of (hosts w) url of
        Some (Serving brs) \<Rightarrow> map_of brs br
      | _ \<Rightarrow> None)"


text \<open>A command that makes exactly one call, and the calls of the bootstrap in order.\<close>

definition single_call :: "call \<Rightarrow> 'a io \<Rightarrow> bool" where
  "single_call c m = (\<forall>w. snd (snd (m w)) = [c])"

definition bootstrap_calls :: "BaseGit \<Rightarrow> call list" where
  "bootstrap_calls this =
     [WriteFile ''README.md'' README, Add ''README.md'', GitCommit ''First Commit!'',
      Push GIT_REMOTE_NAME (branch this)]"

subsection \<open>Example states\<close>

text \<open>
  A Cauldron repository url; the two wordings of git; three commits; and the states:
  an empty directory before an empty remote, the same with a newer git, an empty
  directory without network, the first after \<^verbatim>\<open>git init\<close> and \<^verbatim>\<open>git remote add\<close>, the
  state a bootstrap leaves when its push did not go through, a working copy with a local
  commit and a modified file before a remote that has moved on, the same with a file
  git does not track, and an empty directory before a remote with two branches.
\<close>

definition cauldron_url :: string where
  "cauldron_url = ''git@github.com:org/cauldron.git''"

definition older_git :: string where
  "older_git = ''fatal: Couldn't find remote ref ''"

definition newer_git :: string where
  "newer_git = ''fatal: couldn't find remote ref ''"

definition first_commit :: commit where
  "first_commit = Commit [(''README.md'', README)] ''First Commit!'' None"

definition remote_commit :: commit where
  "remote_commit =
     Commit [(''README.md'', README), (''cauldron.json'', ''{nativeApps: [a]}'')]
       ''add a'' (Some first_commit)"

definition dev_commit :: commit where
  "dev_commit =
     Commit [(''README.md'', README), (''cauldron.json'', ''{nativeApps: [b]}'')]
       ''add b'' (Some first_commit)"

definition fresh_world :: world where
  "fresh_world =
     \<lparr>worktree = [], dotgit = None, hosts = [(cauldron_url, Serving [])], git_says = older_git\<rparr>"

definition newer_git_world :: world where
  "newer_git_world =
     \<lparr>worktree = [], dotgit = None, hosts = [(cauldron_url, Serving [])], git_says = newer_git\<rparr>"

definition offline_world :: world where
  "offline_world = \<lparr>worktree = [], dotgit = None, hosts = [], git_says = older_git\<rparr>"

definition empty_clone_world :: world where
  "empty_clone_world =
     \<lparr>worktree = [],
      dotgit = Some
        \<lparr>remotes = [(''upstream'', cauldron_url)], tracking = [],
         current_branch = ''master'', head = None, index = []\<rparr>,
      hosts = [(cauldron_url, Serving [])], git_says = older_git\<rparr>"

definition stalled_world :: world where
  "stalled_world =
     \<lparr>worktree = [(''README.md'', README)],
      dotgit = Some
        \<lparr>remotes = [(''upstream'', cauldron_url)], tracking = [],
         current_branch = ''master'', head = Some first_commit,
         index = [(''README.md'', README)]\<rparr>,
      hosts = [(cauldron_url, Serving [])], git_says = older_git\<rparr>"

definition drifted_world :: world where
  "drifted_world =
     \<lparr>worktree = [(''README.md'', README), (''cauldron.json'', ''{nativeApps: [x, y]}'')],
      dotgit = Some
        \<lparr>remotes = [(''upstream'', cauldron_url)],
         tracking = [(''upstream/master'', first_commit)],
         current_branch = ''master'',
         head = Some (Commit [(''README.md'', README), (''cauldron.json'', ''{nativeApps: [x]}'')]
                        ''local change'' (Some first_commit)),
         index = [(''README.md'', README), (''cauldron.json'', ''{nativeApps: [x]}'')]\<rparr>,
      hosts = [(cauldron_url, Serving [(''master'', remote_commit)])], git_says = older_git\<rparr>"

definition untracked_world :: world where
  "untracked_world =
     drifted_world\<lparr>worktree := worktree drifted_world @ [(''notes.txt'', ''to do'')]\<rparr>"

definition two_branch_world :: world where
  "two_branch_world =
     \<lparr>worktree = [], dotgit = None,
      hosts = [(cauldron_url, Serving [(''master'', remote_commit), (''dev'', dev_commit)])],
      git_says = older_git\<rparr>"

section \<open>The dependency resolver\<close>

text \<open>
  Modelled from the spec: the resolver (\<^verbatim>\<open>resolveAcrossModules\<close>,
  \<^verbatim>\<open>retainHighestVersions\<close> and the comparison of versions they use) is missing from the
  sources, which only call it.  The definitions of this section follow section 4.4 of
  the specification.
\<close>

text \<open>
  Modelled from the spec: the identity of a dependency is its (name, scope) pair.
\<close>

definition identity_of :: "Dependency \<Rightarrow> string \<times> string option" where
  "identity_of d = (name d, scope d)"

text \<open>
  Modelled from the spec: a list in which every (name, scope) identity appears at most
  once, the invariant of a Version's dependency list.
\<close>

definition distinct_identities :: "Dependency list \<Rightarrow> bool" where
  "distinct_identities ds = distinct (map identity_of ds)"

text \<open>
  Modelled from the spec: the distinct elements of a list, in the order of their first
  occurrence (grouping by identity, collecting distinct versions).
\<close>

primrec nub :: "'a list \<Rightarrow> 'a list" where
  "nub [] = []"
| "nub (x # xs) = x # filter (\<lambda>y. y \<noteq> x) (nub xs)"

text \<open>
  Modelled from the spec: a semantic version is numeric \<^verbatim>\<open>major.minor.patch\<close>, with an
  optional pre-release segment after a hyphen.  \<open>semver\<close> returns the three numbers
  and whether there is a pre-release segment, or \<open>None\<close> for a string that is not of
  this form.
\<close>

primrec fields :: "char \<Rightarrow> string \<Rightarrow> string list" where
  "fields sep [] = [[]]"
| "fields sep (c # s) =
     (if c = sep then [] # fields sep s
      else (case fields sep s of [] \<Rightarrow> [[c]] | f # fs \<Rightarrow> (c # f) # fs))"

definition numeric :: "string \<Rightarrow> bool" where
  "numeric s = (s \<noteq> [] \<and> list_all (\<lambda>c. CHR ''0'' \<le> c \<and> c \<le> CHR ''9'') s)"

definition number :: "string \<Rightarrow> nat" where
  "number s = foldl (\<lambda>n c. 10 * n + (of_char c - 48)) 0 s"

definition semver :: "string \<Rightarrow> ((nat \<times> nat \<times> nat) \<times> bool) option" where
  "semver v =
     (let core = takeWhile (\<lambda>c. c \<noteq> CHR ''-'') v;
          pre = dropWhile (\<lambda>c. c \<noteq> CHR ''-'') v
      in case fields (CHR ''.'') core of
           [a, b, c] \<Rightarrow>
             if numeric a \<and> numeric b \<and> numeric c
             then Some ((number a, number b, number c), pre \<noteq> [])
             else None
         | _ \<Rightarrow> None)"

text \<open>
  Modelled from the spec: \<open>version_gt a b\<close> says that \<open>a\<close> is higher than \<open>b\<close>.  Two
  semantic versions compare by their numbers, and with equal numbers a release is
  higher than a pre-release; when one of the two is not a semantic version the
  comparison falls back to the order of strings.
\<close>

definition version_gt :: "string \<Rightarrow> string \<Rightarrow> bool" where
  "version_gt a b =
     (case (semver a, semver b) of
        (Some ((a1, a2, a3), apre), Some ((b1, b2, b3), bpre)) \<Rightarrow>
          b1 < a1 \<or> (a1 = b1 \<and> (b2 < a2 \<or> (a2 = b2 \<and> (b3 < a3 \<or> (a3 = b3 \<and> bpre \<and> \<not> apre)))))
      | _ \<Rightarrow> b < a)"

text \<open>
  Modelled from the spec: a version that is unset is neither higher nor lower than
  another.
\<close>

definition higher :: "string option \<Rightarrow> string option \<Rightarrow> bool" where
  "higher a b = (case (a, b) of (Some x, Some y) \<Rightarrow> version_gt x y | _ \<Rightarrow> False)"

text \<open>
  Modelled from the spec: \<^verbatim>\<open>retainHighestVersions(resolved, existing)\<close>.  For every
  identity of either list, in the order of first appearance, the entry with the
  highest version among the entries of that identity: the first one, unless a later
  one is higher.
\<close>

definition highest_of :: "Dependency \<Rightarrow> Dependency list \<Rightarrow> Dependency" where
  "highest_of d ds = fold (\<lambda>e best. if higher (version e) (version best) then e else best) ds d"

definition retainHighestVersions :: "Dependency list \<Rightarrow> Dependency list \<Rightarrow> Dependency list" where
  "retainHighestVersions resolved existing =
     (let both = resolved @ existing
      in concat (map (\<lambda>i. case filter (\<lambda>d. identity_of d = i) both of
                             [] \<Rightarrow> []
                           | d # ds \<Rightarrow> [highest_of d ds])
                     (nub (map identity_of both))))"

text \<open>
  Modelled from the spec: the input and the output of \<^verbatim>\<open>resolveAcrossModules\<close>:
  \<^verbatim>\<open>ModuleDependencySet { moduleIdentity, dependencies }\<close>,
  \<^verbatim>\<open>Conflict { identity, versions }\<close> and \<^verbatim>\<open>{ resolved, conflicts }\<close>.
\<close>

record ModuleDependencySet =
  moduleIdentity :: string
  dependencies :: "Dependency list"

record Conflict =
  identity :: "string \<times> string option"
  versions :: "string list"

record Resolution =
  resolved :: "Dependency list"
  conflicts :: "Conflict list"

text \<open>
  Modelled from the spec: the dependencies all modules declare, and the distinct
  versions declared for an identity, entries without version left out.
\<close>

definition declared :: "ModuleDependencySet list \<Rightarrow> Dependency list" where
  "declared modules = concat (map dependencies modules)"

definition declared_versions :: "string \<times> string option \<Rightarrow> Dependency list \<Rightarrow> string list" where
  "declared_versions i ds = nub (List.map_filter version (filter (\<lambda>d. identity_of d = i) ds))"

text \<open>
  Modelled from the spec: the default version of a group with several versions, the
  highest one under the comparison above.
\<close>

definition highest_version :: "string \<Rightarrow> string list \<Rightarrow> string" where
  "highest_version v vs = fold (\<lambda>x best. if version_gt x best then x else best) vs v"

text \<open>
  Modelled from the spec: \<^verbatim>\<open>resolveAcrossModules(modules)\<close>.  One resolved dependency
  per identity: without version when none was declared, with the declared version when
  there is one, with the default when there are several; and one conflict, with the
  sorted distinct versions, per identity with more than one.
\<close>

definition resolve_group :: "Dependency list \<Rightarrow> string \<times> string option \<Rightarrow> Dependency" where
  "resolve_group ds i =
     \<lparr>name = fst i, scope = snd i,
      version = (case declared_versions i ds of
                   [] \<Rightarrow> None
                 | [v] \<Rightarrow> Some v
                 | v # vs \<Rightarrow> Some (highest_version v vs))\<rparr>"

definition conflict_of :: "Dependency list \<Rightarrow> string \<times> string option \<Rightarrow> Conflict list" where
  "conflict_of ds i =
     (if 1 < length (declared_versions i ds)
      then [\<lparr>identity = i, versions = sort (declared_versions i ds)\<rparr>]
      else [])"

definition resolveAcrossModules :: "ModuleDependencySet list \<Rightarrow> Resolution" where
  "resolveAcrossModules modules =
     (let ds = declared modules; ids = nub (map identity_of ds)
      in \<lparr>resolved = map (resolve_group ds) ids,
          conflicts = concat (map (conflict_of ds) ids)\<rparr>)"

text \<open>The dependencies of the examples of the specification.\<close>

definition dep :: "string \<Rightarrow> string \<Rightarrow> Dependency" where
  "dep n v = \<lparr>name = n, scope = None, version = Some v\<rparr>"

section \<open>The matcher\<close>

text \<open>How a greedy quantifier backs off: the longest run for which the rest matches wins.\<close>

lemma backoff_first:
  "lo \<le> m \<Longrightarrow> m \<le> lo + d \<Longrightarrow> f m = Some r \<Longrightarrow>
   (\<And>j. m < j \<Longrightarrow> j \<le> lo + d \<Longrightarrow> f j = None) \<Longrightarrow> backoff f lo d = Some r"
proof (induction d)
  case 0
  then show ?case by simp
next
  case (Suc d)
  show ?case
  proof (cases "m = lo + Suc d")
    case True
    with Suc.prems show ?thesis by simp
  next
    case False
    with Suc.prems have le: "m \<le> lo + d" by simp
    from False Suc.prems have none: "f (lo + Suc d) = None" by simp
    have "backoff f lo d = Some r"
      using Suc.IH [OF Suc.prems(1) le Suc.prems(3)] Suc.prems(4) by simp
    with none show ?thesis by simp
  qed
qed

lemma backoff_none:
  "(\<And>j. lo \<le> j \<Longrightarrow> j \<le> lo + d \<Longrightarrow> f j = None) \<Longrightarrow> backoff f lo d = None"
  by (induction d) simp_all

lemma match_here_absent:
  "Chr c \<in> set p \<Longrightarrow> c \<notin> set u \<Longrightarrow> match_here p u = None"
proof (induction p arbitrary: u)
  case Nil
  then show ?case by simp
next
  case (Cons i p)
  show ?case
  proof (cases i)
    case (Chr x)
    show ?thesis
    proof (cases u)
      case Nil
      with Chr show ?thesis by simp
    next
      case (Cons y ys)
      with Chr Cons.prems Cons.IH [of ys] show ?thesis by auto
    qed
  next
    case AnyChar
    show ?thesis
    proof (cases u)
      case Nil
      with AnyChar show ?thesis by simp
    next
      case (Cons y ys)
      with AnyChar Cons.prems Cons.IH [of ys] show ?thesis by auto
    qed
  next
    case (Many lo cap)
    with Cons.prems have in_p: "Chr c \<in> set p" by simp
    have "match_here p (drop k u) = None" for k
      using Cons.IH [OF in_p, of "drop k u"] Cons.prems(2) by (meson in_set_dropD)
    then show ?thesis using Many by (simp add: backoff_none Let_def)
  qed
qed

lemma exec_absent: "Chr c \<in> set p \<Longrightarrow> c \<notin> set u \<Longrightarrow> exec p u = None"
  by (induction u) (simp_all add: match_here_absent)

lemma takeWhile_all: "\<forall>c\<in>set (take m s). P c \<Longrightarrow> m \<le> length s \<Longrightarrow> m \<le> length (takeWhile P s)"
proof (induction s arbitrary: m)
  case Nil then show ?case by simp
next
  case (Cons a s)
  then show ?case by (cases m) auto
qed

lemma match_Many:
  assumes dots: "\<forall>c\<in>set (take m s). is_dot c" and lo: "lo \<le> m" and len: "m \<le> length s"
    and here: "match_here p (drop m s) = Some cs"
    and later: "\<And>j. m < j \<Longrightarrow> j \<le> length s \<Longrightarrow> match_here p (drop j s) = None"
  shows "match_here (Many lo cap # p) s = Some (if cap then take m s # cs else cs)"
proof -
  let ?n = "length (takeWhile is_dot s)"
  let ?f = "\<lambda>k. map_option (\<lambda>cs. if cap then take k s # cs else cs) (match_here p (drop k s))"
  have mn: "m \<le> ?n" using takeWhile_all [OF dots len] .
  have nlen: "?n \<le> length s" by (rule length_takeWhile_le)
  have "backoff ?f lo (?n - lo) = Some (if cap then take m s # cs else cs)"
  proof (rule backoff_first [where m = m])
    show "lo \<le> m" by (rule lo)
    show "m \<le> lo + (?n - lo)" using mn lo by simp
    show "?f m = Some (if cap then take m s # cs else cs)" using here by simp
    fix j assume "m < j" "j \<le> lo + (?n - lo)"
    then have "j \<le> length s" using nlen mn lo by simp
    then show "?f j = None" using later [OF \<open>m < j\<close>] by simp
  qed
  moreover have "\<not> ?n < lo" using mn lo by simp
  ultimately show ?thesis by (simp add: Let_def)
qed

text \<open>The patterns of \<^verbatim>\<open>Dependency\<close> on the strings of the grammar.\<close>

lemma match_rest: "\<forall>c\<in>set v. is_dot c \<Longrightarrow> match_here [Many 0 True] v = Some [v]"
  using match_Many [of "length v" v 0 "[]" "[]" True] by simp

lemma match_Chr_absent: "c \<notin> set u \<Longrightarrow> match_here (Chr c # p) u = None"
  by (cases u) auto

lemma set_drop_append_Cons:
  "length s < j \<Longrightarrow> set (drop j (s @ x # r)) \<subseteq> set r"
  by (auto dest!: in_set_dropD simp: drop_Cons')

lemma match_name_version:
  assumes n: "\<forall>c\<in>set n. is_dot c" and v: "\<forall>c\<in>set v. is_dot c"
    and at: "CHR ''@'' \<notin> set v"
  shows "match_here [Many 0 True, Chr (CHR ''@''), Many 0 True] (n @ CHR ''@'' # v) = Some [n, v]"
proof -
  let ?s = "n @ CHR ''@'' # v"
  have "match_here (Many 0 True # [Chr (CHR ''@''), Many 0 True]) ?s
        = Some (if True then take (length n) ?s # [v] else [v])"
  proof (rule match_Many)
    show "\<forall>c\<in>set (take (length n) ?s). is_dot c" using n by simp
    show "0 \<le> length n" by simp
    show "length n \<le> length ?s" by simp
    show "match_here [Chr (CHR ''@''), Many 0 True] (drop (length n) ?s) = Some [v]"
      using match_rest [OF v] by simp
    fix j assume "length n < j"
    then have "set (drop j ?s) \<subseteq> set v" by (rule set_drop_append_Cons)
    with at have "CHR ''@'' \<notin> set (drop j ?s)" by blast
    then show "match_here [Chr (CHR ''@''), Many 0 True] (drop j ?s) = None"
      by (rule match_Chr_absent)
  qed
  then show ?thesis by simp
qed

lemma match_scope_name_version:
  assumes s: "\<forall>c\<in>set s. is_dot c" and s1: "s \<noteq> []"
    and n: "\<forall>c\<in>set n. is_dot c" and v: "\<forall>c\<in>set v. is_dot c"
    and slash: "CHR ''/'' \<notin> set n" "CHR ''/'' \<notin> set v"
    and at: "CHR ''@'' \<notin> set v"
  shows "match_here SCOPE_NAME_VERSION_RE (CHR ''@'' # s @ CHR ''/'' # n @ CHR ''@'' # v)
         = Some [s, n, v]"
proof -
  let ?r = "n @ CHR ''@'' # v"
  let ?t = "s @ CHR ''/'' # ?r"
  let ?p = "[Chr (CHR ''/''), Many 0 True, Chr (CHR ''@''), Many 0 True]"
  have "match_here (Many 1 True # ?p) ?t = Some (if True then take (length s) ?t # [n, v] else [n, v])"
  proof (rule match_Many)
    show "\<forall>c\<in>set (take (length s) ?t). is_dot c" using s by simp
    show "1 \<le> length s" using s1 by (cases s) simp_all
    show "length s \<le> length ?t" by simp
    show "match_here ?p (drop (length s) ?t) = Some [n, v]"
      using match_name_version [OF n v at] by simp
    fix j assume "length s < j"
    then have "set (drop j ?t) \<subseteq> set ?r" by (rule set_drop_append_Cons)
    with slash have "CHR ''/'' \<notin> set (drop j ?t)" by auto
    then show "match_here ?p (drop j ?t) = None"
      by (rule match_Chr_absent)
  qed
  then show ?thesis by (simp add: SCOPE_NAME_VERSION_RE_def)
qed

lemma exec_first: "match_here p s = Some cs \<Longrightarrow> exec p s = Some cs"
  by (cases s) simp_all

lemma fromString_branch1:
  "exec SCOPE_NAME_VERSION_RE str = Some cs \<Longrightarrow>
   fromString str = \<lparr>name = grp cs 2, scope = Some (grp cs 1), version = Some (grp cs 3)\<rparr>"
  by (simp add: fromString_def test_def)

lemma fromString_branch2:
  "exec SCOPE_NAME_VERSION_RE str = None \<Longrightarrow> exec NAME_VERSION_RE str = Some cs \<Longrightarrow>
   fromString str = \<lparr>name = grp cs 1, scope = None, version = Some (grp cs 2)\<rparr>"
  by (simp add: fromString_def test_def)

lemma fromString_branch4:
  "exec SCOPE_NAME_VERSION_RE str = None \<Longrightarrow> exec NAME_VERSION_RE str = None \<Longrightarrow>
   exec SCOPE_NAME_NO_VERSION_RE str = None \<Longrightarrow>
   fromString str = \<lparr>name = str, scope = None, version = None\<rparr>"
  by (simp add: fromString_def test_def)

lemma token_dot: "token s \<Longrightarrow> \<forall>c\<in>set s. is_dot c"
  by (simp add: token_def)

lemma token_no_at: "token s \<Longrightarrow> CHR ''@'' \<notin> set s"
  by (auto simp: token_def)

lemma token_no_slash: "token s \<Longrightarrow> CHR ''/'' \<notin> set s"
  by (auto simp: token_def)

lemma fromString_scope_name_version:
  assumes "token s" "s \<noteq> []" "token n" "token v"
  shows "fromString (CHR ''@'' # s @ CHR ''/'' # n @ CHR ''@'' # v)
         = \<lparr>name = n, scope = Some s, version = Some v\<rparr>"
proof -
  have "match_here SCOPE_NAME_VERSION_RE (CHR ''@'' # s @ CHR ''/'' # n @ CHR ''@'' # v) = Some [s, n, v]"
    using assms by (intro match_scope_name_version token_dot token_no_at token_no_slash)
  then have "exec SCOPE_NAME_VERSION_RE (CHR ''@'' # s @ CHR ''/'' # n @ CHR ''@'' # v) = Some [s, n, v]"
    by (rule exec_first)
  then show ?thesis by (simp only: fromString_branch1) (simp add: grp_def)
qed

lemma fromString_name_version:
  assumes "token n" "token v"
  shows "fromString (n @ CHR ''@'' # v) = \<lparr>name = n, scope = None, version = Some v\<rparr>"
proof -
  have "CHR ''/'' \<notin> set (n @ CHR ''@'' # v)"
    using token_no_slash [OF assms(1)] token_no_slash [OF assms(2)] by simp
  then have 1: "exec SCOPE_NAME_VERSION_RE (n @ CHR ''@'' # v) = None"
    by (rule exec_absent [rotated]) (simp add: SCOPE_NAME_VERSION_RE_def)
  have "match_here NAME_VERSION_RE (n @ CHR ''@'' # v) = Some [n, v]"
    unfolding NAME_VERSION_RE_def
    using assms by (intro match_name_version token_dot token_no_at)
  then have 2: "exec NAME_VERSION_RE (n @ CHR ''@'' # v) = Some [n, v]"
    by (rule exec_first)
  show ?thesis by (simp only: fromString_branch2 [OF 1 2]) (simp add: grp_def)
qed

lemma fromString_name:
  assumes "token n"
  shows "fromString n = \<lparr>name = n, scope = None, version = None\<rparr>"
proof -
  have a: "CHR ''@'' \<notin> set n" using assms by (rule token_no_at)
  have 1: "exec SCOPE_NAME_VERSION_RE n = None"
    using a by (rule exec_absent [rotated]) (simp add: SCOPE_NAME_VERSION_RE_def)
  have 2: "exec NAME_VERSION_RE n = None"
    using a by (rule exec_absent [rotated]) (simp add: NAME_VERSION_RE_def)
  have 3: "exec SCOPE_NAME_NO_VERSION_RE n = None"
    using a by (rule exec_absent [rotated]) (simp add: SCOPE_NAME_NO_VERSION_RE_def)
  show ?thesis by (rule fromString_branch4 [OF 1 2 3])
qed

lemma fromString_scope_name:
  assumes "token s" "token n"
  shows "fromString (CHR ''@'' # s @ CHR ''/'' # n)
         = \<lparr>name = [], scope = None, version = Some (s @ CHR ''/'' # n)\<rparr>"
proof -
  let ?r = "s @ CHR ''/'' # n"
  have a: "CHR ''@'' \<notin> set ?r"
    using token_no_at [OF assms(1)] token_no_at [OF assms(2)] by simp
  have d: "\<forall>c\<in>set ?r. is_dot c"
    using token_dot [OF assms(1)] token_dot [OF assms(2)] by (auto simp: is_dot_def)
  have "match_here [Many 1 True, Chr (CHR ''/''), Many 0 True, Chr (CHR ''@''), Many 0 True] ?r = None"
    using a by (rule match_here_absent [rotated]) simp
  then have "match_here SCOPE_NAME_VERSION_RE (CHR ''@'' # ?r) = None"
    by (simp add: SCOPE_NAME_VERSION_RE_def)
  moreover have "exec SCOPE_NAME_VERSION_RE ?r = None"
    using a by (rule exec_absent [rotated]) (simp add: SCOPE_NAME_VERSION_RE_def)
  ultimately have 1: "exec SCOPE_NAME_VERSION_RE (CHR ''@'' # ?r) = None"
    by (simp only: exec.simps option.case)
  have "match_here [Many 0 True, Chr (CHR ''@''), Many 0 True] ([] @ CHR ''@'' # ?r) = Some [[], ?r]"
    using a d by (intro match_name_version) simp_all
  then have "match_here NAME_VERSION_RE (CHR ''@'' # ?r) = Some [[], ?r]"
    by (simp only: NAME_VERSION_RE_def append_Nil)
  then have 2: "exec NAME_VERSION_RE (CHR ''@'' # ?r) = Some [[], ?r]"
    by (rule exec_first)
  show ?thesis by (simp only: fromString_branch2 [OF 1 2]) (simp add: grp_def)
qed

section \<open>Properties of Dependency\<close>

text \<open>
  C7: a dependency and its copy without version are the same when the version is
  ignored, and are not the same when the version counts and the dependency has one.
\<close>

theorem same_withoutVersion:
  "same d (withoutVersion d) True \<and>
   (version d \<noteq> None \<longrightarrow> \<not> same d (withoutVersion d) False)"
  by (simp add: same_def withoutVersion_def)

theorem same_withoutVersion_witness:
  "version \<lparr>name = ''react-native'', scope = None, version = Some ''0.42.0''\<rparr> \<noteq> None \<and>
   same \<lparr>name = ''react-native'', scope = None, version = Some ''0.42.0''\<rparr>
     (withoutVersion \<lparr>name = ''react-native'', scope = None, version = Some ''0.42.0''\<rparr>) True \<and>
   \<not> same \<lparr>name = ''react-native'', scope = None, version = Some ''0.42.0''\<rparr>
     (withoutVersion \<lparr>name = ''react-native'', scope = None, version = Some ''0.42.0''\<rparr>) False"
  using same_withoutVersion
    [of "\<lparr>name = ''react-native'', scope = None, version = Some ''0.42.0''\<rparr>"]
  by simp

text \<open>
  The strings of the grammar that carry a version, and the bare names, are parsed into
  their parts, and \<^verbatim>\<open>toString\<close> writes them back: on these three shapes parsing
  inverts printing.
\<close>

lemma toString_wellformed:
  "wellformed d \<Longrightarrow>
   toString d =
     (case scope d of None \<Rightarrow> [] | Some s \<Rightarrow> CHR ''@'' # s @ ''/'')
     @ name d @ (case version d of None \<Rightarrow> [] | Some v \<Rightarrow> CHR ''@'' # v)"
  by (auto simp: wellformed_def toString_def split: option.splits)

lemma fromString_toString_versioned_or_bare:
  assumes wf: "wellformed d" and shape: "scope d = None \<or> version d \<noteq> None"
  shows "fromString (toString d) = d"
proof (cases "version d")
  case None
  with shape have sc: "scope d = None" by simp
  from wf have "token (name d)" by (simp add: wellformed_def)
  then have "fromString (name d) = \<lparr>name = name d, scope = None, version = None\<rparr>"
    by (rule fromString_name)
  with None sc show ?thesis by (simp add: toString_wellformed [OF wf])
next
  case (Some v)
  from wf Some have n: "token (name d)" and v: "token v"
    by (simp_all add: wellformed_def)
  show ?thesis
  proof (cases "scope d")
    case None
    have "fromString (name d @ CHR ''@'' # v) = \<lparr>name = name d, scope = None, version = Some v\<rparr>"
      using n v by (rule fromString_name_version)
    with None Some show ?thesis by (simp add: toString_wellformed [OF wf])
  next
    case (Some s)
    with wf have s: "token s" "s \<noteq> []" by (simp_all add: wellformed_def)
    have "fromString (CHR ''@'' # s @ CHR ''/'' # name d @ CHR ''@'' # v)
          = \<lparr>name = name d, scope = Some s, version = Some v\<rparr>"
      using s n v by (rule fromString_scope_name_version)
    with Some \<open>version d = Some v\<close> show ?thesis by (simp add: toString_wellformed [OF wf])
  qed
qed

text \<open>
  A scoped string without version never reaches the third branch of \<^verbatim>\<open>fromString\<close>:
  it holds an \<^verbatim>\<open>@\<close>, so \<^verbatim>\<open>NAME_VERSION_RE\<close> matches it first, with an empty name.
\<close>

lemma fromString_toString_scoped_unversioned:
  assumes "token s" "s \<noteq> []" "token n"
  shows "fromString (toString \<lparr>name = n, scope = Some s, version = None\<rparr>)
         = \<lparr>name = [], scope = None, version = Some (s @ CHR ''/'' # n)\<rparr>"
  using fromString_scope_name [OF assms(1) assms(3)] assms(2) by (simp add: toString_def)

text \<open>
  C1: the scoped string \<^verbatim>\<open>@walmart/ern-util\<close> without version.  The parser returns an
  empty name, no scope, and the rest of the string as the version.
\<close>

theorem fromString_scoped_no_version:
  "fromString ''@walmart/ern-util''
   = \<lparr>name = [], scope = None, version = Some ''walmart/ern-util''\<rparr>"
  using fromString_scope_name [of "''walmart''" "''ern-util''"]
  by (simp add: token_def is_dot_def)

text \<open>
  C2: the dependency \<^verbatim>\<open>ern-util\<close> of scope \<^verbatim>\<open>walmart\<close>, without version, is printed as
  \<^verbatim>\<open>@walmart/ern-util\<close> and parsed back into another dependency.
\<close>

theorem roundtrip_scoped_no_version:
  "toString \<lparr>name = ''ern-util'', scope = Some ''walmart'', version = None\<rparr> = ''@walmart/ern-util'' \<and>
   fromString (toString \<lparr>name = ''ern-util'', scope = Some ''walmart'', version = None\<rparr>)
   = \<lparr>name = [], scope = None, version = Some ''walmart/ern-util''\<rparr> \<and>
   fromString (toString \<lparr>name = ''ern-util'', scope = Some ''walmart'', version = None\<rparr>)
   \<noteq> \<lparr>name = ''ern-util'', scope = Some ''walmart'', version = None\<rparr>"
  using fromString_toString_scoped_unversioned [of "''walmart''" "''ern-util''"]
  by (simp add: token_def is_dot_def toString_def)


section \<open>Properties of getDownloadedPluginPath\<close>

text \<open>\<^verbatim>\<open>path.join\<close> leaves a list of plain segments as it is, joined with slashes.\<close>

lemma segments_no_slash: "CHR ''/'' \<notin> set s \<Longrightarrow> segments s = [s]"
  by (induction s) auto

lemma segments_append:
  "CHR ''/'' \<notin> set a \<Longrightarrow> segments (a @ CHR ''/'' # r) = a # segments r"
  by (induction a) auto

lemma segments_unsegments:
  "xs \<noteq> [] \<Longrightarrow> \<forall>x\<in>set xs. CHR ''/'' \<notin> set x \<Longrightarrow> segments (unsegments xs) = xs"
  by (induction xs rule: unsegments.induct) (simp_all add: segments_no_slash segments_append)

lemma normalizeString_segments:
  "\<forall>x\<in>set xs. segment x \<Longrightarrow> normalizeString a res xs = res @ xs"
  by (induction xs arbitrary: res) (auto simp: segment_def)

lemma unsegments_Nil: "xs \<noteq> [] \<Longrightarrow> \<forall>x\<in>set xs. x \<noteq> [] \<Longrightarrow> unsegments xs \<noteq> []"
  by (induction xs rule: unsegments.induct) simp_all

lemma hd_unsegments: "xs \<noteq> [] \<Longrightarrow> \<forall>x\<in>set xs. x \<noteq> [] \<Longrightarrow> hd (unsegments xs) = hd (hd xs)"
  by (induction xs rule: unsegments.induct) simp_all

lemma last_unsegments:
  "xs \<noteq> [] \<Longrightarrow> \<forall>x\<in>set xs. x \<noteq> [] \<Longrightarrow> last (unsegments xs) = last (last xs)"
  by (induction xs rule: unsegments.induct) (simp_all add: unsegments_Nil)

lemma normalize_segments:
  assumes ne: "xs \<noteq> []" and seg: "\<forall>x\<in>set xs. segment x"
  shows "normalize (unsegments xs) = unsegments xs"
proof -
  let ?p = "unsegments xs"
  from seg have nonempty: "\<forall>x\<in>set xs. x \<noteq> []" and noslash: "\<forall>x\<in>set xs. CHR ''/'' \<notin> set x"
    by (auto simp: segment_def)
  have p: "?p \<noteq> []" using ne nonempty by (rule unsegments_Nil)
  have "hd xs \<in> set xs" "last xs \<in> set xs" using ne by simp_all
  then have "hd (hd xs) \<in> set (hd xs)" "last (last xs) \<in> set (last xs)"
    using nonempty by simp_all
  then have "hd (hd xs) \<noteq> CHR ''/''" "last (last xs) \<noteq> CHR ''/''"
    using noslash \<open>hd xs \<in> set xs\<close> \<open>last xs \<in> set xs\<close> by metis+
  then have h: "hd ?p \<noteq> CHR ''/''" and l: "last ?p \<noteq> CHR ''/''"
    using hd_unsegments [OF ne nonempty] last_unsegments [OF ne nonempty] by simp_all
  have "normalizeString True [] (segments ?p) = xs"
    using segments_unsegments [OF ne noslash] normalizeString_segments [OF seg, of True "[]"]
    by simp
  with p h l show ?thesis by (simp add: normalize_def)
qed

lemma path_join_segments:
  assumes "xs \<noteq> []" and "\<forall>x\<in>set xs. segment x"
  shows "path_join xs = unsegments xs"
proof -
  from assms(2) have "filter (\<lambda>arg. arg \<noteq> []) xs = xs"
    by (auto simp: segment_def intro: filter_True)
  with assms show ?thesis by (simp add: path_join_def normalize_segments)
qed

lemma match_git_suffix_short:
  "length u < 4 \<Longrightarrow>
   match_here [AnyChar, Chr (CHR ''g''), Chr (CHR ''i''), Chr (CHR ''t'')] u = None"
  by (auto split: list.splits)

text \<open>
  The dot of \<^verbatim>\<open>gitDirectoryRe\<close> before \<^verbatim>\<open>git\<close> is not escaped: it stands for any character
  \<open>x\<close>, the dot among them.
\<close>

lemma match_git_dir:
  assumes d: "\<forall>c\<in>set dir. is_dot c" and x: "is_dot x"
  shows "match_here [Many 0 True, AnyChar, Chr (CHR ''g''), Chr (CHR ''i''), Chr (CHR ''t'')]
           (dir @ x # ''git'') = Some [dir]"
proof -
  let ?s = "dir @ x # ''git''"
  let ?p = "[AnyChar, Chr (CHR ''g''), Chr (CHR ''i''), Chr (CHR ''t'')]"
  have "match_here (Many 0 True # ?p) ?s = Some (if True then take (length dir) ?s # [] else [])"
  proof (rule match_Many)
    show "\<forall>c\<in>set (take (length dir) ?s). is_dot c" using d by simp
    show "0 \<le> length dir" by simp
    show "length dir \<le> length ?s" by simp
    show "match_here ?p (drop (length dir) ?s) = Some []" using x by simp
    fix j assume "length dir < j" "j \<le> length ?s"
    then have "length (drop j ?s) < 4" by simp
    then show "match_here ?p (drop j ?s) = None" by (rule match_git_suffix_short)
  qed
  then show ?thesis by simp
qed

lemma exec_gitDirectoryRe:
  assumes pre: "\<forall>c\<in>set pre. is_dot c" and d: "\<forall>c\<in>set dir. is_dot c"
    and slash: "CHR ''/'' \<notin> set dir" and x: "is_dot x" "x \<noteq> CHR ''/''"
  shows "exec gitDirectoryRe (pre @ ''/'' @ dir @ x # ''git'') = Some [dir]"
proof -
  let ?r = "dir @ x # ''git''"
  let ?s = "pre @ CHR ''/'' # ?r"
  let ?p = "[Chr (CHR ''/''), Many 0 True, AnyChar, Chr (CHR ''g''), Chr (CHR ''i''), Chr (CHR ''t'')]"
  have "match_here (Many 0 False # ?p) ?s = Some (if False then take (length pre) ?s # [dir] else [dir])"
  proof (rule match_Many)
    show "\<forall>c\<in>set (take (length pre) ?s). is_dot c" using pre by simp
    show "0 \<le> length pre" by simp
    show "length pre \<le> length ?s" by simp
    show "match_here ?p (drop (length pre) ?s) = Some [dir]"
      using match_git_dir [OF d x(1)] by simp
    fix j assume "length pre < j"
    then have "set (drop j ?s) \<subseteq> set ?r" by (rule set_drop_append_Cons)
    with slash x(2) have "CHR ''/'' \<notin> set (drop j ?s)" by auto
    then show "match_here ?p (drop j ?s) = None" by (rule match_Chr_absent)
  qed
  then have "match_here gitDirectoryRe ?s = Some [dir]" by (simp add: gitDirectoryRe_def)
  then have "exec gitDirectoryRe ?s = Some [dir]" by (rule exec_first)
  then show ?thesis by simp
qed

text \<open>The origins, case by case.\<close>

lemma gitDirectory_any:
  assumes "\<forall>c\<in>set (pre @ dir). is_dot c" "CHR ''/'' \<notin> set dir" "dir \<noteq> []"
    "is_dot x" "x \<noteq> CHR ''/''"
  shows "gitDirectory (pre @ ''/'' @ dir @ x # ''git'') = Some dir"
proof -
  have "exec gitDirectoryRe (pre @ ''/'' @ dir @ x # ''git'') = Some [dir]"
    using assms by (intro exec_gitDirectoryRe) simp_all
  with assms(3) show ?thesis by (simp add: gitDirectory_def grp_def)
qed

lemma gitDirectory_form:
  assumes "\<forall>c\<in>set (pre @ dir). is_dot c" "CHR ''/'' \<notin> set dir" "dir \<noteq> []"
  shows "gitDirectory (pre @ ''/'' @ dir @ ''.git'') = Some dir"
  using gitDirectory_any [OF assms, of "CHR ''.''"] by (simp add: is_dot_def)

lemma getDownloadedPluginPath_npm:
  assumes "origin_type po = Some ''npm''" "\<not> truthy (origin_scope po)"
    "origin_name po = Some n" "segment n"
  shows "getDownloadedPluginPath po = Inr (''node_modules/'' @ n)"
proof -
  have "path_join [''node_modules'', n] = unsegments [''node_modules'', n]"
    using assms(4) by (intro path_join_segments) (simp_all add: segment_def)
  with assms show ?thesis
    by (simp add: getDownloadedPluginPath_def downloadPath_def)
qed

lemma getDownloadedPluginPath_npm_scoped:
  assumes "origin_type po = Some ''npm''" "origin_scope po = Some s" "s \<noteq> []"
    "CHR ''/'' \<notin> set s" "origin_name po = Some n" "segment n"
  shows "getDownloadedPluginPath po = Inr (''node_modules/@'' @ s @ ''/'' @ n)"
proof -
  have "path_join [''node_modules'', CHR ''@'' # s, n] = unsegments [''node_modules'', CHR ''@'' # s, n]"
    using assms(4,6) by (intro path_join_segments) (simp_all add: segment_def)
  with assms show ?thesis
    by (simp add: getDownloadedPluginPath_def downloadPath_def truthy_def js_string_def)
qed

lemma downloadPath_git:
  "origin_type po = Some ''git'' \<Longrightarrow>
   downloadPath po =
     Inr (if truthy (origin_version po)
          then (case exec gitDirectoryRe (js_string (origin_url po)) of
                  None \<Rightarrow> None | Some m \<Rightarrow> Some (grp m 1))
          else None)"
  by (simp add: downloadPath_def test_def split: option.splits)

lemma getDownloadedPluginPath_git:
  assumes "origin_type po = Some ''git''" "truthy (origin_version po)"
    "gitDirectory (js_string (origin_url po)) = Some dir"
  shows "getDownloadedPluginPath po = Inr dir"
proof -
  from assms(3) obtain m where m: "exec gitDirectoryRe (js_string (origin_url po)) = Some m"
    and dir: "grp m 1 = dir" "dir \<noteq> []"
    by (auto simp: gitDirectory_def split: option.splits if_splits)
  from assms(1,2) m have "downloadPath po = Inr (Some (grp m 1))"
    by (simp add: downloadPath_git)
  with dir show ?thesis by (simp add: getDownloadedPluginPath_def)
qed

lemma getDownloadedPluginPath_git_throws:
  assumes git: "origin_type po = Some ''git''"
    and no: "\<not> truthy (origin_version po) \<or> gitDirectory (js_string (origin_url po)) = None"
  shows "getDownloadedPluginPath po = Inl (Error ''Unsupported plugin origin type : git'')"
proof -
  have ty: "js_string (origin_type po) = ''git''" using git by (simp add: js_string_def)
  have "downloadPath po = Inr None \<or> downloadPath po = Inr (Some [])"
  proof (cases "truthy (origin_version po)")
    case False
    with git show ?thesis by (simp add: downloadPath_git)
  next
    case True
    with no have "gitDirectory (js_string (origin_url po)) = None" by simp
    then have "exec gitDirectoryRe (js_string (origin_url po)) = None \<or>
       (\<exists>m. exec gitDirectoryRe (js_string (origin_url po)) = Some m \<and> grp m 1 = [])"
      by (auto simp: gitDirectory_def split: option.splits if_splits)
    with git True show ?thesis by (auto simp: downloadPath_git)
  qed
  then show ?thesis
    unfolding getDownloadedPluginPath_def ty by auto
qed

lemma getDownloadedPluginPath_other:
  assumes "origin_type po \<noteq> Some ''npm''" "origin_type po \<noteq> Some ''git''"
  shows "getDownloadedPluginPath po =
         Inl (Error (''Unsupported plugin origin type : '' @ js_string (origin_type po)))"
  using assms by (simp add: getDownloadedPluginPath_def downloadPath_def)

text \<open>
  \<^verbatim>\<open>getDownloadedPluginPath\<close> by origin type.  An npm origin with a plain package
  name gives \<^verbatim>\<open>node_modules/name\<close>, or \<^verbatim>\<open>node_modules/@scope/name\<close> when it has a
  scope.  A git origin with a version gives the directory that \<^verbatim>\<open>gitDirectoryRe\<close> finds
  in its url, in particular \<open>dir\<close> for a url \<^verbatim>\<open>pre/dir.git\<close>; without a version, or when
  the pattern finds no directory, the function throws.  So it does for every other
  origin type.
\<close>

lemma getDownloadedPluginPath_cases:
  "(origin_type po = Some ''npm'' \<and> \<not> truthy (origin_scope po) \<and>
      origin_name po = Some n \<and> segment n
    \<longrightarrow> getDownloadedPluginPath po = Inr (''node_modules/'' @ n)) \<and>
   (origin_type po = Some ''npm'' \<and> origin_scope po = Some s \<and> s \<noteq> [] \<and>
      CHR ''/'' \<notin> set s \<and> origin_name po = Some n \<and> segment n
    \<longrightarrow> getDownloadedPluginPath po = Inr (''node_modules/@'' @ s @ ''/'' @ n)) \<and>
   (origin_type po = Some ''git'' \<and> truthy (origin_version po) \<and>
      gitDirectory (js_string (origin_url po)) = Some dir
    \<longrightarrow> getDownloadedPluginPath po = Inr dir) \<and>
   (origin_type po = Some ''git'' \<and> truthy (origin_version po) \<and>
      origin_url po = Some (pre @ ''/'' @ dir @ ''.git'') \<and>
      (\<forall>c\<in>set (pre @ dir). is_dot c) \<and> CHR ''/'' \<notin> set dir \<and> dir \<noteq> []
    \<longrightarrow> getDownloadedPluginPath po = Inr dir) \<and>
   (origin_type po = Some ''git'' \<and>
      (\<not> truthy (origin_version po) \<or> gitDirectory (js_string (origin_url po)) = None)
    \<longrightarrow> getDownloadedPluginPath po = Inl (Error ''Unsupported plugin origin type : git'')) \<and>
   (origin_type po \<noteq> Some ''npm'' \<and> origin_type po \<noteq> Some ''git''
    \<longrightarrow> getDownloadedPluginPath po =
        Inl (Error (''Unsupported plugin origin type : '' @ js_string (origin_type po))))"
proof (intro conjI impI)
  assume "origin_type po = Some ''npm'' \<and> \<not> truthy (origin_scope po) \<and>
      origin_name po = Some n \<and> segment n"
  then show "getDownloadedPluginPath po = Inr (''node_modules/'' @ n)"
    using getDownloadedPluginPath_npm by blast
next
  assume "origin_type po = Some ''npm'' \<and> origin_scope po = Some s \<and> s \<noteq> [] \<and>
      CHR ''/'' \<notin> set s \<and> origin_name po = Some n \<and> segment n"
  then show "getDownloadedPluginPath po = Inr (''node_modules/@'' @ s @ ''/'' @ n)"
    using getDownloadedPluginPath_npm_scoped by blast
next
  assume "origin_type po = Some ''git'' \<and> truthy (origin_version po) \<and>
      gitDirectory (js_string (origin_url po)) = Some dir"
  then show "getDownloadedPluginPath po = Inr dir"
    using getDownloadedPluginPath_git by blast
next
  assume a: "origin_type po = Some ''git'' \<and> truthy (origin_version po) \<and>
      origin_url po = Some (pre @ ''/'' @ dir @ ''.git'') \<and>
      (\<forall>c\<in>set (pre @ dir). is_dot c) \<and> CHR ''/'' \<notin> set dir \<and> dir \<noteq> []"
  then have "gitDirectory (pre @ ''/'' @ dir @ ''.git'') = Some dir"
    by (intro gitDirectory_form) simp_all
  with a have "gitDirectory (js_string (origin_url po)) = Some dir"
    by (simp add: js_string_def)
  with a show "getDownloadedPluginPath po = Inr dir"
    using getDownloadedPluginPath_git by blast
next
  assume "origin_type po = Some ''git'' \<and>
      (\<not> truthy (origin_version po) \<or> gitDirectory (js_string (origin_url po)) = None)"
  then show "getDownloadedPluginPath po = Inl (Error ''Unsupported plugin origin type : git'')"
    using getDownloadedPluginPath_git_throws by blast
next
  assume "origin_type po \<noteq> Some ''npm'' \<and> origin_type po \<noteq> Some ''git''"
  then show "getDownloadedPluginPath po =
        Inl (Error (''Unsupported plugin origin type : '' @ js_string (origin_type po)))"
    using getDownloadedPluginPath_other by blast
qed


lemma getDownloadedPluginPath_samples:
  "getDownloadedPluginPath
     \<lparr>origin_type = Some ''npm'', origin_name = Some ''react-native-code-push'',
      origin_scope = None, origin_url = None, origin_version = Some ''1.16.1-beta''\<rparr>
   = Inr ''node_modules/react-native-code-push'' \<and>
   getDownloadedPluginPath
     \<lparr>origin_type = Some ''npm'', origin_name = Some ''ern-util'',
      origin_scope = Some ''walmart'', origin_url = None, origin_version = None\<rparr>
   = Inr ''node_modules/@walmart/ern-util'' \<and>
   getDownloadedPluginPath
     \<lparr>origin_type = Some ''git'', origin_name = None, origin_scope = None,
      origin_url = Some ''https://github.com/aoriani/ReactNative-StackTracer.git'',
      origin_version = Some ''0.1.1''\<rparr>
   = Inr ''ReactNative-StackTracer'' \<and>
   getDownloadedPluginPath
     \<lparr>origin_type = Some ''git'', origin_name = None, origin_scope = None,
      origin_url = Some ''https://github.com/aoriani/ReactNative-StackTracer.git'',
      origin_version = None\<rparr>
   = Inl (Error ''Unsupported plugin origin type : git'') \<and>
   getDownloadedPluginPath
     \<lparr>origin_type = Some ''fs'', origin_name = Some ''x'', origin_scope = None,
      origin_url = None, origin_version = Some ''1.0.0''\<rparr>
   = Inl (Error ''Unsupported plugin origin type : fs'')"
proof -
  have g: "gitDirectory (js_string (Some ''https://github.com/aoriani/ReactNative-StackTracer.git''))
           = Some ''ReactNative-StackTracer''"
    using gitDirectory_form [of "''https://github.com/aoriani''" "''ReactNative-StackTracer''"]
    by (simp add: is_dot_def js_string_def)
  show ?thesis
    using
      getDownloadedPluginPath_cases
        [where po = "\<lparr>origin_type = Some ''npm'', origin_name = Some ''react-native-code-push'',
            origin_scope = None, origin_url = None, origin_version = Some ''1.16.1-beta''\<rparr>"
          and n = "''react-native-code-push''"]
      getDownloadedPluginPath_cases
        [where po = "\<lparr>origin_type = Some ''npm'', origin_name = Some ''ern-util'',
            origin_scope = Some ''walmart'', origin_url = None, origin_version = None\<rparr>"
          and n = "''ern-util''" and s = "''walmart''"]
      getDownloadedPluginPath_cases
        [where po = "\<lparr>origin_type = Some ''git'', origin_name = None, origin_scope = None,
            origin_url = Some ''https://github.com/aoriani/ReactNative-StackTracer.git'',
            origin_version = Some ''0.1.1''\<rparr>"
          and dir = "''ReactNative-StackTracer''" and pre = "''https://github.com/aoriani''"]
      getDownloadedPluginPath_cases
        [where po = "\<lparr>origin_type = Some ''git'', origin_name = None, origin_scope = None,
            origin_url = Some ''https://github.com/aoriani/ReactNative-StackTracer.git'',
            origin_version = None\<rparr>"]
      getDownloadedPluginPath_cases
        [where po = "\<lparr>origin_type = Some ''fs'', origin_name = Some ''x'', origin_scope = None,
            origin_url = None, origin_version = Some ''1.0.0''\<rparr>"]
      g
    by (simp add: segment_def truthy_def is_dot_def js_string_def)
qed

text \<open>
  C10: a git origin whose url does not end in \<^verbatim>\<open>.git\<close>.  The url
  \<^verbatim>\<open>https://github.com/org/legit\<close> is not of the form \<^verbatim>\<open>.../dir.git\<close>, and the function
  does not throw: the pattern takes the \<^verbatim>\<open>e\<close> of \<^verbatim>\<open>legit\<close> for its dot, and the function
  returns the directory \<^verbatim>\<open>l\<close>.
\<close>

theorem getDownloadedPluginPath_unescaped_dot:
  "getDownloadedPluginPath
     \<lparr>origin_type = Some ''git'', origin_name = None, origin_scope = None,
      origin_url = Some ''https://github.com/org/legit'', origin_version = Some ''1.0.0''\<rparr>
   = Inr ''l'' \<and>
   \<not> suffix ''.git'' ''https://github.com/org/legit''"
proof -
  have "gitDirectory (''https://github.com/org'' @ ''/'' @ ''l'' @ CHR ''e'' # ''git'') = Some ''l''"
    by (rule gitDirectory_any) (simp_all add: is_dot_def)
  then have "gitDirectory (js_string (Some ''https://github.com/org/legit'')) = Some ''l''"
    by (simp add: js_string_def)
  then have "getDownloadedPluginPath
     \<lparr>origin_type = Some ''git'', origin_name = None, origin_scope = None,
      origin_url = Some ''https://github.com/org/legit'', origin_version = Some ''1.0.0''\<rparr>
   = Inr ''l''"
    by (intro getDownloadedPluginPath_git) (simp_all add: truthy_def)
  moreover have "\<not> suffix ''.git'' ''https://github.com/org/legit''"
    by (simp add: suffix_to_prefix)
  ultimately show ?thesis by simp
qed

section \<open>Properties of BaseGit\<close>



lemma io_then_cases:
  assumes "io_then m k w = (r, w', t)"
  obtains (fails) e where "m w = (Inl e, w', t)" "r = Inl e"
  | (goes) x w1 t1 t2 where "m w = (Inr x, w1, t1)" "k w1 = (r, w', t2)" "t = t1 @ t2"
  using assms by (auto simp: io_then_def split: prod.splits sum.splits)


lemma git_cmd_Inl:
  "git_cmd c f w = (Inl e, w', t) \<Longrightarrow> w' = w \<and> t = [c]"
  by (auto simp: git_cmd_def split: option.splits sum.splits)


text \<open>The definitions an evaluation of the class unfolds.\<close>

lemmas basegit_defs =
  sync_def sync_setup_def sync_fetch_def doInitialCommit_def push_def
  io_then_def io_when_def io_catch_def io_return_def io_throw_def existsSync_def
  initAsync_def addRemoteAsync_def rawAsync_def fetchAsync_def resetAsync_def addAsync_def
  commitAsync_def pushAsync_def writeFile_def git_cmd_def empty_git_dir_def resolve_ref_def
  contact_def
  GIT_REMOTE_NAME_def README_def test_def no_remote_ref_re_def error_string_def new_BaseGit_def

lemmas example_defs =
  cauldron_url_def older_git_def newer_git_def first_commit_def remote_commit_def dev_commit_def
  fresh_world_def newer_git_world_def offline_world_def empty_clone_world_def stalled_world_def
  drifted_world_def untracked_world_def two_branch_world_def

text \<open>The bootstrap, with and without the marker file.\<close>

lemma doInitialCommit_present:
  "existsSync ''README.md'' w \<Longrightarrow> doInitialCommit this w = (Inr (), w, [])"
  by (simp add: doInitialCommit_def io_when_def io_return_def)

lemma io_then_single:
  assumes single: "single_call c m" and run: "io_then m k w = (r, w', t)"
  shows "(\<exists>e. r = Inl e \<and> t = [c]) \<or>
         (\<exists>x w1 t2. m w = (Inr x, w1, [c]) \<and> k w1 = (r, w', t2) \<and> t = c # t2)"
  using run
proof (cases rule: io_then_cases)
  case (fails e)
  with single show ?thesis by (auto simp: single_call_def dest: spec [of _ w])
next
  case (goes x w1 t1 t2)
  with single show ?thesis by (auto simp: single_call_def dest: spec [of _ w])
qed

lemma single_callD: "single_call c m \<Longrightarrow> m w = (r, w', t) \<Longrightarrow> t = [c]"
  by (auto simp: single_call_def dest: spec [of _ w])

lemma git_cmd_single: "single_call c (git_cmd c f)"
  by (auto simp: single_call_def git_cmd_def split: option.splits sum.splits)

lemma writeFile_single: "single_call (WriteFile f c) (writeFile f c)"
  by (simp add: single_call_def writeFile_def)

lemma addAsync_single: "single_call (Add f) (addAsync f)"
  unfolding addAsync_def by (rule git_cmd_single)

lemma commitAsync_single: "single_call (GitCommit m) (commitAsync m)"
  unfolding commitAsync_def by (rule git_cmd_single)

lemma push_single: "single_call (Push GIT_REMOTE_NAME (branch this)) (push this)"
  unfolding push_def pushAsync_def by (rule git_cmd_single)


lemma doInitialCommit_absent:
  assumes absent: "\<not> existsSync ''README.md'' w" and run: "doInitialCommit this w = (r, w', t)"
  shows "prefix t (bootstrap_calls this) \<and> t \<noteq> [] \<and> (r = Inr () \<longrightarrow> t = bootstrap_calls this)"
proof -
  from absent run have "io_then (writeFile ''README.md'' README)
       (io_then (addAsync ''README.md'')
       (io_then (commitAsync ''First Commit!'') (push this))) w = (r, w', t)"
    by (simp add: doInitialCommit_def io_when_def)
  from io_then_single [OF writeFile_single this]
  consider (w_fails) e where "r = Inl e" "t = [WriteFile ''README.md'' README]"
    | (w_goes) w1 ta where
        "io_then (addAsync ''README.md'')
           (io_then (commitAsync ''First Commit!'') (push this)) w1 = (r, w', ta)"
        "t = WriteFile ''README.md'' README # ta"
    by blast
  then show ?thesis
  proof cases
    case w_fails
    then show ?thesis by (simp add: bootstrap_calls_def)
  next
    case w_goes
    from io_then_single [OF addAsync_single w_goes(1)]
    consider (a_fails) e where "r = Inl e" "ta = [Add ''README.md'']"
      | (a_goes) w2 tb where
          "io_then (commitAsync ''First Commit!'') (push this) w2 = (r, w', tb)"
          "ta = Add ''README.md'' # tb"
      by blast
    then show ?thesis
    proof cases
      case a_fails
      with w_goes show ?thesis by (simp add: bootstrap_calls_def)
    next
      case a_goes
      from io_then_single [OF commitAsync_single a_goes(1)]
      consider (c_fails) e where "r = Inl e" "tb = [GitCommit ''First Commit!'']"
        | (c_goes) w3 tc where "push this w3 = (r, w', tc)"
            "tb = GitCommit ''First Commit!'' # tc"
        by blast
      then show ?thesis
      proof cases
        case c_fails
        with w_goes a_goes show ?thesis by (simp add: bootstrap_calls_def)
      next
        case c_goes
        from c_goes(1) have "tc = [Push GIT_REMOTE_NAME (branch this)]" by (rule single_callD [OF push_single])
        with w_goes a_goes c_goes show ?thesis by (simp add: bootstrap_calls_def)
      qed
    qed
  qed
qed



lemma git_cmd_frame:
  assumes run: "git_cmd c f w = (r, w', t)"
    and frame: "\<And>g w1. f g w = Inr w1 \<Longrightarrow> P w1"
    and start: "P w"
  shows "P w'"
  using run start frame by (auto simp: git_cmd_def split: option.splits sum.splits)


































lemma worktree_frame:
  "addAsync f w = (r, w', t) \<Longrightarrow> worktree w' = worktree w"
  "commitAsync m w = (r, w', t) \<Longrightarrow> worktree w' = worktree w"
  "pushAsync remote br w = (r, w', t) \<Longrightarrow> worktree w' = worktree w"
  unfolding addAsync_def commitAsync_def pushAsync_def
  by (erule git_cmd_frame; auto split: option.splits sum.splits if_splits)+

lemma doInitialCommit_writes:
  assumes absent: "\<not> existsSync ''README.md'' w" and run: "doInitialCommit this w = (r, w', t)"
  shows "map_of (worktree w') ''README.md'' = Some README"
proof -
  let ?w1 = "w\<lparr>worktree := AList.update ''README.md'' README (worktree w)\<rparr>"
  from absent run have "io_then (addAsync ''README.md'')
       (io_then (commitAsync ''First Commit!'') (push this)) ?w1
       = (r, w', tl t)"
    by (auto simp: doInitialCommit_def io_when_def io_then_def writeFile_def split: prod.splits sum.splits)
  then have "worktree w' = worktree ?w1"
    by (auto elim!: io_then_cases simp: push_def worktree_frame)
  then show ?thesis by (simp add: update_conv')
qed

text \<open>
  C9: with \<^verbatim>\<open>README.md\<close> present, the bootstrap returns at once: no call is made and
  the working copy, the repository and the remotes are as before.  With \<^verbatim>\<open>README.md\<close>
  absent it writes the file and makes the calls write, add, commit, push in this order,
  up to the first that fails; when it returns it has made all four.
\<close>

theorem doInitialCommit_only_when_absent:
  "(existsSync ''README.md'' w \<longrightarrow> doInitialCommit this w = (Inr (), w, [])) \<and>
   (\<not> existsSync ''README.md'' w \<and> doInitialCommit this w = (r, w', t) \<longrightarrow>
      map_of (worktree w') ''README.md'' = Some README \<and>
      prefix t (bootstrap_calls this) \<and> t \<noteq> [] \<and> (r = Inr () \<longrightarrow> t = bootstrap_calls this))"
  using doInitialCommit_present doInitialCommit_absent doInitialCommit_writes by blast

theorem doInitialCommit_only_when_absent_witness:
  "existsSync ''README.md'' stalled_world \<and>
   doInitialCommit (new_BaseGit cauldron_url None) stalled_world = (Inr (), stalled_world, []) \<and>
   \<not> existsSync ''README.md'' empty_clone_world \<and>
   fst (doInitialCommit (new_BaseGit cauldron_url None) empty_clone_world) = Inr () \<and>
   snd (snd (doInitialCommit (new_BaseGit cauldron_url None) empty_clone_world)) =
     [WriteFile ''README.md'' README, Add ''README.md'', GitCommit ''First Commit!'',
      Push ''upstream'' ''master''] \<and>
   remote_branch (fst (snd (doInitialCommit (new_BaseGit cauldron_url None) empty_clone_world)))
     cauldron_url ''master'' = Some first_commit"
proof -
  let ?C = "new_BaseGit cauldron_url None"
  let ?run = "doInitialCommit ?C empty_clone_world"
  have 1: "existsSync ''README.md'' stalled_world"
    by (simp add: existsSync_def stalled_world_def)
  have 2: "\<not> existsSync ''README.md'' empty_clone_world"
    by (simp add: existsSync_def empty_clone_world_def)
  have 3: "fst ?run = Inr ()"
    by (simp add: basegit_defs example_defs)
  then have 4: "?run = (Inr (), fst (snd ?run), snd (snd ?run))"
    by (metis prod.collapse)
  have 5: "remote_branch (fst (snd ?run)) cauldron_url ''master'' = Some first_commit"
    by (simp add: basegit_defs example_defs remote_branch_def)
  from 1 doInitialCommit_only_when_absent [of stalled_world ?C]
  have 6: "doInitialCommit ?C stalled_world = (Inr (), stalled_world, [])"
    by blast
  from 2 4 doInitialCommit_only_when_absent
    [of empty_clone_world ?C "Inr ()" "fst (snd ?run)" "snd (snd ?run)"]
  have "snd (snd ?run) = bootstrap_calls ?C"
    by blast
  then have 7: "snd (snd ?run) =
     [WriteFile ''README.md'' README, Add ''README.md'', GitCommit ''First Commit!'',
      Push ''upstream'' ''master'']"
    by (simp add: bootstrap_calls_def new_BaseGit_def GIT_REMOTE_NAME_def)
  from 1 2 3 5 6 7 show ?thesis by blast
qed

text \<open>
  C8: a \<^verbatim>\<open>BaseGit\<close> made for the branch \<^verbatim>\<open>dev\<close>.  \<^verbatim>\<open>sync\<close> fetches \<^verbatim>\<open>master\<close> and resets
  to \<^verbatim>\<open>upstream/master\<close>, so the working copy holds the remote's \<^verbatim>\<open>master\<close> and not its
  \<^verbatim>\<open>dev\<close>; \<^verbatim>\<open>push\<close> then pushes \<^verbatim>\<open>dev\<close>.
\<close>

theorem sync_fetches_master_push_pushes_branch:
  "fst (sync (new_BaseGit cauldron_url (Some ''dev'')) two_branch_world) = Inr () \<and>
   snd (snd (sync (new_BaseGit cauldron_url (Some ''dev'')) two_branch_world)) =
     [Init, AddRemote ''upstream'' cauldron_url,
      Raw [''remote'', ''set-url'', ''upstream'', cauldron_url],
      Fetch ''upstream'' ''master'', Reset [''--hard'', ''upstream/master'']] \<and>
   local_head (fst (snd (sync (new_BaseGit cauldron_url (Some ''dev'')) two_branch_world)))
     = remote_branch two_branch_world cauldron_url ''master'' \<and>
   local_head (fst (snd (sync (new_BaseGit cauldron_url (Some ''dev'')) two_branch_world)))
     \<noteq> remote_branch two_branch_world cauldron_url ''dev'' \<and>
   snd (snd (push (new_BaseGit cauldron_url (Some ''dev''))
     (fst (snd (sync (new_BaseGit cauldron_url (Some ''dev'')) two_branch_world)))))
     = [Push ''upstream'' ''dev'']"
  by (simp add: basegit_defs example_defs remote_branch_def local_head_def)


section \<open>Properties of the resolver\<close>

text \<open>Distinct elements, and the comparison of versions.\<close>

lemma set_nub: "set (nub xs) = set xs"
  by (induction xs) auto

lemma distinct_nub: "distinct (nub xs)"
  by (induction xs) (auto simp: set_nub)

lemma nub_distinct: "distinct xs \<Longrightarrow> nub xs = xs"
  by (induction xs) (auto simp: set_nub intro: filter_True)

lemma nub_append: "nub (xs @ ys) = nub xs @ filter (\<lambda>y. y \<notin> set xs) (nub ys)"
  by (induction xs) (auto intro: filter_cong)

lemma nub_twice: "distinct xs \<Longrightarrow> nub (xs @ xs) = xs"
  by (simp add: nub_append nub_distinct filter_empty_conv [THEN iffD2])

lemma filter_eq_singleton: "distinct xs \<Longrightarrow> i \<in> set xs \<Longrightarrow> filter (\<lambda>j. j = i) xs = [i]"
  by (induction xs) (auto simp: filter_empty_conv)

lemma filter_key_singleton:
  "distinct (map f xs) \<Longrightarrow> d \<in> set xs \<Longrightarrow> filter (\<lambda>y. f y = f d) xs = [d]"
  by (induction xs) (auto simp: filter_empty_conv image_iff)

lemma filter_key_none: "i \<notin> f ` set xs \<Longrightarrow> filter (\<lambda>y. f y = i) xs = []"
  by (auto simp: filter_empty_conv)

lemma filter_key_le1: "distinct (map f xs) \<Longrightarrow> length (filter (\<lambda>y. f y = i) xs) \<le> 1"
  by (induction xs) (auto simp: filter_empty_conv image_iff)

lemma version_gt_asym: "version_gt a b \<Longrightarrow> \<not> version_gt b a"
  by (auto simp: version_gt_def split: option.splits prod.splits)

lemma higher_asym: "higher a b \<Longrightarrow> \<not> higher b a"
  by (auto simp: higher_def dest: version_gt_asym split: option.splits)

lemma higher_irrefl: "\<not> higher a a"
  using higher_asym by blast

lemma highest_of_Nil: "highest_of d [] = d"
  by (simp add: highest_of_def)

lemma highest_of_Cons:
  "highest_of d (e # ds) = highest_of (if higher (version e) (version d) then e else d) ds"
  by (simp add: highest_of_def)

lemma highest_of_in: "highest_of d ds \<in> set (d # ds)"
proof (induction ds arbitrary: d)
  case Nil
  show ?case by (simp add: highest_of_Nil)
next
  case (Cons e ds)
  from Cons [of "if higher (version e) (version d) then e else d"]
  show ?case by (auto simp: highest_of_Cons split: if_splits)
qed

lemma highest_of_group:
  assumes "length (d # ds) \<le> 2" and "x \<in> set (d # ds)"
  shows "\<not> higher (version x) (version (highest_of d ds))"
proof (cases ds)
  case Nil
  with assms show ?thesis by (simp add: highest_of_Nil higher_irrefl)
next
  case (Cons e es)
  with assms have "es = []" by simp
  with Cons assms show ?thesis
    by (auto simp: highest_of_Cons highest_of_Nil higher_irrefl dest: higher_asym)
qed

lemma concat_map_single:
  "(\<And>x. x \<in> set xs \<Longrightarrow> f x = [g x]) \<Longrightarrow> concat (map f xs) = map g xs"
  by (induction xs) simp_all

lemma retain_pick:
  assumes "i \<in> set (nub (map identity_of both))"
  shows "\<exists>d ds. filter (\<lambda>d. identity_of d = i) both = d # ds \<and>
     (case filter (\<lambda>d. identity_of d = i) both of [] \<Rightarrow> [] | d # ds \<Rightarrow> [highest_of d ds])
       = [highest_of d ds] \<and>
     identity_of (highest_of d ds) = i \<and> highest_of d ds \<in> set both"
proof -
  from assms obtain x where "x \<in> set both" "identity_of x = i" by (auto simp: set_nub)
  then have "filter (\<lambda>d. identity_of d = i) both \<noteq> []" by (auto simp: filter_empty_conv)
  then obtain d ds where g: "filter (\<lambda>d. identity_of d = i) both = d # ds"
    by (cases "filter (\<lambda>d. identity_of d = i) both") auto
  have "highest_of d ds \<in> set (filter (\<lambda>d. identity_of d = i) both)"
    using highest_of_in [of d ds] g by simp
  then have "identity_of (highest_of d ds) = i" "highest_of d ds \<in> set both" by auto
  with g show ?thesis by simp
qed

lemma retain_identities:
  "map identity_of (retainHighestVersions rs existing)
   = nub (map identity_of (rs @ existing))"
proof -
  let ?both = "rs @ existing"
  let ?g = "\<lambda>i. case filter (\<lambda>d. identity_of d = i) ?both of [] \<Rightarrow> [] | d # ds \<Rightarrow> [highest_of d ds]"
  have "map identity_of (?g i) = [i]" if "i \<in> set (nub (map identity_of ?both))" for i
    using retain_pick [OF that] by auto
  then have "concat (map (\<lambda>i. map identity_of (?g i)) (nub (map identity_of ?both)))
             = map (\<lambda>i. i) (nub (map identity_of ?both))"
    by (rule concat_map_single)
  then show ?thesis
    by (simp add: retainHighestVersions_def Let_def map_concat o_def del: filter_append map_append)
qed

lemma retain_member:
  assumes "x \<in> set (retainHighestVersions rs existing)"
  shows "\<exists>d ds. filter (\<lambda>d. identity_of d = identity_of x) (rs @ existing) = d # ds \<and>
                x = highest_of d ds \<and> x \<in> set (rs @ existing)"
proof -
  let ?both = "rs @ existing"
  from assms obtain i where i: "i \<in> set (nub (map identity_of ?both))"
    and x: "x \<in> set (case filter (\<lambda>d. identity_of d = i) ?both of [] \<Rightarrow> [] | d # ds \<Rightarrow> [highest_of d ds])"
    by (auto simp: retainHighestVersions_def Let_def)
  from retain_pick [OF i] x show ?thesis by auto
qed

lemma retain_not_lower:
  assumes r: "distinct_identities rs" and e: "distinct_identities existing"
    and o: "x \<in> set (retainHighestVersions rs existing)"
    and y: "y \<in> set rs \<union> set existing" "identity_of y = identity_of x"
  shows "\<not> higher (version y) (version x)"
proof -
  let ?P = "\<lambda>d. identity_of d = identity_of x"
  from retain_member [OF o] obtain d ds where g: "filter ?P (rs @ existing) = d # ds"
    and x: "x = highest_of d ds"
    by blast
  have "length (filter ?P rs) \<le> 1"
    using r unfolding distinct_identities_def by (rule filter_key_le1)
  moreover have "length (filter ?P existing) \<le> 1"
    using e unfolding distinct_identities_def by (rule filter_key_le1)
  ultimately have "length (filter ?P (rs @ existing)) \<le> 2" by simp
  then have "length (d # ds) \<le> 2" unfolding g .
  moreover from y have "y \<in> set (filter ?P (rs @ existing))" by auto
  then have "y \<in> set (d # ds)" unfolding g .
  ultimately show ?thesis unfolding x by (rule highest_of_group)
qed

lemma retain_contains:
  assumes "filter (\<lambda>y. identity_of y = identity_of d) (rs @ existing) = [d]"
  shows "d \<in> set (retainHighestVersions rs existing)"
proof -
  have "d \<in> set (filter (\<lambda>y. identity_of y = identity_of d) (rs @ existing))"
    unfolding assms by simp
  then have "d \<in> set (rs @ existing)" by simp
  then have "identity_of d \<in> identity_of ` set (rs @ existing)" by (rule imageI)
  then have "identity_of d \<in> set (nub (map identity_of (rs @ existing)))"
    by (simp only: set_nub set_map)
  with assms show ?thesis
    by (auto simp: retainHighestVersions_def Let_def highest_of_Nil intro!: bexI [of _ "identity_of d"])
qed

lemma retain_passes_resolved:
  assumes "distinct_identities rs" "d \<in> set rs"
    "identity_of d \<notin> identity_of ` set existing"
  shows "d \<in> set (retainHighestVersions rs existing)"
proof (rule retain_contains)
  show "filter (\<lambda>y. identity_of y = identity_of d) (rs @ existing) = [d]"
    using assms filter_key_singleton [of identity_of rs d]
      filter_key_none [of "identity_of d" identity_of existing]
    by (simp add: distinct_identities_def)
qed

lemma retain_passes_existing:
  assumes "distinct_identities existing" "d \<in> set existing"
    "identity_of d \<notin> identity_of ` set rs"
  shows "d \<in> set (retainHighestVersions rs existing)"
proof (rule retain_contains)
  show "filter (\<lambda>y. identity_of y = identity_of d) (rs @ existing) = [d]"
    using assms filter_key_singleton [of identity_of existing d]
      filter_key_none [of "identity_of d" identity_of rs]
    by (simp add: distinct_identities_def)
qed

lemma retain_idempotent:
  assumes "distinct_identities x"
  shows "retainHighestVersions x x = x"
proof -
  let ?g = "\<lambda>i. case filter (\<lambda>d. identity_of d = i) (x @ x) of [] \<Rightarrow> [] | d # ds \<Rightarrow> [highest_of d ds]"
  have ids: "nub (map identity_of (x @ x)) = map identity_of x"
    using assms by (simp add: distinct_identities_def nub_twice)
  have "?g (identity_of d) = [d]" if "d \<in> set x" for d
    using filter_key_singleton [of identity_of x d] assms that
    by (simp add: distinct_identities_def highest_of_Cons highest_of_Nil)
  then have "concat (map (\<lambda>d. ?g (identity_of d)) x) = map (\<lambda>d. d) x"
    by (rule concat_map_single)
  then show ?thesis
    by (simp add: retainHighestVersions_def Let_def ids o_def del: filter_append map_append)
qed

text \<open>The definitions an evaluation of the resolver unfolds.\<close>

lemmas resolver_defs =
  retainHighestVersions_def highest_of_def higher_def version_gt_def semver_def numeric_def
  number_def identity_of_def dep_def distinct_identities_def

text \<open>
  C5, amended: for lists in each of which every (name, scope) identity appears at most
  once, \<^verbatim>\<open>retainHighestVersions\<close> returns one entry for every identity of either list
  and no other; every entry is an entry of one of the lists, and no entry of either list
  with the same identity has a higher version; an entry whose identity is in one list
  only passes through; and \<^verbatim>\<open>retainHighestVersions(x, x) = x\<close>.
\<close>

theorem retainHighestVersions_properties:
  "distinct_identities rs \<Longrightarrow> distinct_identities existing \<Longrightarrow>
   map identity_of (retainHighestVersions rs existing) = nub (map identity_of (rs @ existing)) \<and>
   set (retainHighestVersions rs existing) \<subseteq> set rs \<union> set existing \<and>
   (\<forall>x\<in>set (retainHighestVersions rs existing). \<forall>y\<in>set rs \<union> set existing.
      identity_of y = identity_of x \<longrightarrow> \<not> higher (version y) (version x)) \<and>
   (\<forall>d\<in>set rs. identity_of d \<notin> identity_of ` set existing \<longrightarrow>
      d \<in> set (retainHighestVersions rs existing)) \<and>
   (\<forall>d\<in>set existing. identity_of d \<notin> identity_of ` set rs \<longrightarrow>
      d \<in> set (retainHighestVersions rs existing)) \<and>
   retainHighestVersions rs rs = rs"
proof (intro conjI)
  assume r: "distinct_identities rs" and e: "distinct_identities existing"
  show "map identity_of (retainHighestVersions rs existing) = nub (map identity_of (rs @ existing))"
    by (rule retain_identities)
  show "set (retainHighestVersions rs existing) \<subseteq> set rs \<union> set existing"
    using retain_member [of _ rs existing] by auto
  show "\<forall>x\<in>set (retainHighestVersions rs existing). \<forall>y\<in>set rs \<union> set existing.
      identity_of y = identity_of x \<longrightarrow> \<not> higher (version y) (version x)"
    using retain_not_lower [OF r e] by blast
  show "\<forall>d\<in>set rs. identity_of d \<notin> identity_of ` set existing \<longrightarrow>
      d \<in> set (retainHighestVersions rs existing)"
    using retain_passes_resolved [OF r] by blast
  show "\<forall>d\<in>set existing. identity_of d \<notin> identity_of ` set rs \<longrightarrow>
      d \<in> set (retainHighestVersions rs existing)"
    using retain_passes_existing [OF e] by blast
  show "retainHighestVersions rs rs = rs"
    using r by (rule retain_idempotent)
qed

theorem retainHighestVersions_properties_witness:
  "distinct_identities [dep ''A'' ''1.0'', dep ''B'' ''1.0''] \<and>
   distinct_identities [dep ''A'' ''2.0'', dep ''C'' ''0.3.1''] \<and>
   retainHighestVersions [dep ''A'' ''1.0'', dep ''B'' ''1.0''] [dep ''A'' ''2.0'', dep ''C'' ''0.3.1'']
     = [dep ''A'' ''2.0'', dep ''B'' ''1.0'', dep ''C'' ''0.3.1''] \<and>
   higher (Some ''2.0'') (Some ''1.0'') \<and>
   retainHighestVersions [dep ''A'' ''1.0'', dep ''B'' ''1.0''] [dep ''A'' ''1.0'', dep ''B'' ''1.0'']
     = [dep ''A'' ''1.0'', dep ''B'' ''1.0''] \<and>
   retainHighestVersions [dep ''A'' ''1.0''] [dep ''A'' ''2.0''] = [dep ''A'' ''2.0''] \<and>
   retainHighestVersions [dep ''A'' ''1.0'', dep ''B'' ''1.0''] [dep ''A'' ''1.0'']
     = [dep ''A'' ''1.0'', dep ''B'' ''1.0'']"
proof -
  have 1: "distinct_identities [dep ''A'' ''1.0'', dep ''B'' ''1.0'']"
    and 2: "distinct_identities [dep ''A'' ''2.0'', dep ''C'' ''0.3.1'']"
    by (simp_all add: resolver_defs)
  from retainHighestVersions_properties [OF 1 2]
  have 3: "retainHighestVersions [dep ''A'' ''1.0'', dep ''B'' ''1.0''] [dep ''A'' ''1.0'', dep ''B'' ''1.0'']
     = [dep ''A'' ''1.0'', dep ''B'' ''1.0'']"
    by blast
  have 4: "retainHighestVersions [dep ''A'' ''1.0'', dep ''B'' ''1.0''] [dep ''A'' ''2.0'', dep ''C'' ''0.3.1'']
     = [dep ''A'' ''2.0'', dep ''B'' ''1.0'', dep ''C'' ''0.3.1'']"
    "higher (Some ''2.0'') (Some ''1.0'')"
    "retainHighestVersions [dep ''A'' ''1.0''] [dep ''A'' ''2.0''] = [dep ''A'' ''2.0'']"
    "retainHighestVersions [dep ''A'' ''1.0'', dep ''B'' ''1.0''] [dep ''A'' ''1.0'']
     = [dep ''A'' ''1.0'', dep ''B'' ''1.0'']"
    by (simp_all add: resolver_defs)
  from 1 2 3 4 show ?thesis by blast
qed

text \<open>
  C5 as stated fails on a list that holds an identity twice: of \<^verbatim>\<open>A@1.0\<close> and \<^verbatim>\<open>A@2.0\<close>
  only the higher one is kept, so the result is not the list itself.
\<close>

theorem retainHighestVersions_duplicates:
  "retainHighestVersions [dep ''A'' ''1.0'', dep ''A'' ''2.0''] [dep ''A'' ''1.0'', dep ''A'' ''2.0'']
     = [dep ''A'' ''2.0''] \<and>
   retainHighestVersions [dep ''A'' ''1.0'', dep ''A'' ''2.0''] [dep ''A'' ''1.0'', dep ''A'' ''2.0'']
     \<noteq> [dep ''A'' ''1.0'', dep ''A'' ''2.0'']"
  by (simp add: resolver_defs)

text \<open>The resolved entry and the conflict of one identity.\<close>

lemma identity_resolve_group: "identity_of (resolve_group ds j) = j"
  by (simp add: resolve_group_def identity_of_def)

lemma filter_resolved:
  assumes "distinct ids" "i \<in> set ids"
  shows "filter (\<lambda>d. identity_of d = i) (map (resolve_group ds) ids) = [resolve_group ds i]"
proof -
  have "filter (\<lambda>d. identity_of d = i) (map (resolve_group ds) ids)
        = map (resolve_group ds) (filter (\<lambda>j. j = i) ids)"
    by (simp add: filter_map o_def identity_resolve_group)
  with filter_eq_singleton [OF assms] show ?thesis by simp
qed

lemma filter_conflict_of:
  "filter (\<lambda>c. identity c = i) (conflict_of ds j) = (if j = i then conflict_of ds i else [])"
  by (simp add: conflict_of_def)

lemma filter_conflicts:
  assumes "distinct ids" "i \<in> set ids"
  shows "filter (\<lambda>c. identity c = i) (concat (map (conflict_of ds) ids)) = conflict_of ds i"
  using assms
proof (induction ids)
  case Nil
  then show ?case by simp
next
  case (Cons j ids)
  have none: "filter (\<lambda>c. identity c = i) (concat (map (conflict_of ds) ids)) = []"
    if "i \<notin> set ids"
    using that by (induction ids) (auto simp: filter_conflict_of)
  show ?case
  proof (cases "j = i")
    case True
    with Cons.prems have "i \<notin> set ids" by simp
    with True none show ?thesis by (simp add: filter_conflict_of)
  next
    case False
    with Cons show ?thesis by (simp add: filter_conflict_of)
  qed
qed

lemma set_declared_versions:
  "set (declared_versions i ds) = {v. \<exists>d\<in>set ds. identity_of d = i \<and> version d = Some v}"
  by (force simp: declared_versions_def set_nub List.map_filter_def image_iff)

lemma distinct_declared_versions: "distinct (declared_versions i ds)"
  by (simp add: declared_versions_def distinct_nub)

lemmas resolve_defs =
  resolveAcrossModules_def declared_def declared_versions_def resolve_group_def conflict_of_def
  highest_version_def List.map_filter_def version_gt_def semver_def numeric_def number_def
  identity_of_def dep_def

text \<open>
  C6: \<^verbatim>\<open>resolveAcrossModules\<close> returns one resolved dependency per declared identity,
  whatever the versions.  For an identity the modules declare, the resolved entry has no
  version when none was declared and the declared version when there is exactly one; in
  these cases there is no conflict for the identity.  With more than one distinct
  version there is exactly one conflict for it, and its versions are the declared
  versions, sorted and without repetition.  Entries without version add nothing to them.
\<close>

theorem resolveAcrossModules_groups:
  "i \<in> identity_of ` set (declared modules) \<Longrightarrow>
   map identity_of (resolved (resolveAcrossModules modules)) = nub (map identity_of (declared modules)) \<and>
   filter (\<lambda>d. identity_of d = i) (resolved (resolveAcrossModules modules)) =
     [\<lparr>name = fst i, scope = snd i,
       version = (case declared_versions i (declared modules) of
                    [] \<Rightarrow> None | [v] \<Rightarrow> Some v | v # vs \<Rightarrow> Some (highest_version v vs))\<rparr>] \<and>
   (length (declared_versions i (declared modules)) \<le> 1 \<longrightarrow>
      filter (\<lambda>c. identity c = i) (conflicts (resolveAcrossModules modules)) = []) \<and>
   (1 < length (declared_versions i (declared modules)) \<longrightarrow>
      filter (\<lambda>c. identity c = i) (conflicts (resolveAcrossModules modules)) =
        [\<lparr>identity = i, versions = sort (declared_versions i (declared modules))\<rparr>]) \<and>
   sorted (sort (declared_versions i (declared modules))) \<and>
   distinct (sort (declared_versions i (declared modules))) \<and>
   set (sort (declared_versions i (declared modules))) =
     {v. \<exists>d\<in>set (declared modules). identity_of d = i \<and> version d = Some v}"
proof -
  assume "i \<in> identity_of ` set (declared modules)"
  then have i: "i \<in> set (nub (map identity_of (declared modules)))" by (simp add: set_nub)
  let ?ds = "declared modules"
  let ?ids = "nub (map identity_of ?ds)"
  have r: "resolved (resolveAcrossModules modules) = map (resolve_group ?ds) ?ids"
    and c: "conflicts (resolveAcrossModules modules) = concat (map (conflict_of ?ds) ?ids)"
    by (simp_all add: resolveAcrossModules_def Let_def)
  have 1: "map identity_of (resolved (resolveAcrossModules modules)) = ?ids"
    unfolding r by (simp add: o_def identity_resolve_group)
  have 2: "filter (\<lambda>d. identity_of d = i) (resolved (resolveAcrossModules modules)) =
     [resolve_group ?ds i]"
    unfolding r using distinct_nub i by (rule filter_resolved)
  have 3: "filter (\<lambda>c. identity c = i) (conflicts (resolveAcrossModules modules)) = conflict_of ?ds i"
    unfolding c using distinct_nub i by (rule filter_conflicts)
  from 1 2 3 show ?thesis
    by (simp add: resolve_group_def conflict_of_def set_declared_versions distinct_declared_versions)
qed

theorem resolveAcrossModules_groups_witness:
  "(''A'', None) \<in> identity_of ` set (declared
      [\<lparr>moduleIdentity = ''m1'', dependencies = [dep ''A'' ''2.0'', dep ''B'' ''1.0'']\<rparr>,
       \<lparr>moduleIdentity = ''m2'', dependencies = [dep ''A'' ''1.0'', dep ''B'' ''1.0'']\<rparr>]) \<and>
   filter (\<lambda>c. identity c = (''A'', None)) (conflicts (resolveAcrossModules
      [\<lparr>moduleIdentity = ''m1'', dependencies = [dep ''A'' ''2.0'', dep ''B'' ''1.0'']\<rparr>,
       \<lparr>moduleIdentity = ''m2'', dependencies = [dep ''A'' ''1.0'', dep ''B'' ''1.0'']\<rparr>]))
     = [\<lparr>identity = (''A'', None), versions = [''1.0'', ''2.0'']\<rparr>] \<and>
   filter (\<lambda>c. identity c = (''B'', None)) (conflicts (resolveAcrossModules
      [\<lparr>moduleIdentity = ''m1'', dependencies = [dep ''A'' ''2.0'', dep ''B'' ''1.0'']\<rparr>,
       \<lparr>moduleIdentity = ''m2'', dependencies = [dep ''A'' ''1.0'', dep ''B'' ''1.0'']\<rparr>]))
     = [] \<and>
   filter (\<lambda>d. identity_of d = (''B'', None)) (resolved (resolveAcrossModules
      [\<lparr>moduleIdentity = ''m1'', dependencies = [dep ''A'' ''2.0'', dep ''B'' ''1.0'']\<rparr>,
       \<lparr>moduleIdentity = ''m2'', dependencies = [dep ''A'' ''1.0'', dep ''B'' ''1.0'']\<rparr>]))
     = [dep ''B'' ''1.0''] \<and>
   resolveAcrossModules
      [\<lparr>moduleIdentity = ''m1'', dependencies = [dep ''A'' ''1.0'']\<rparr>,
       \<lparr>moduleIdentity = ''m2'', dependencies = [dep ''A'' ''1.0'']\<rparr>]
     = \<lparr>resolved = [dep ''A'' ''1.0''], conflicts = []\<rparr> \<and>
   conflicts (resolveAcrossModules
      [\<lparr>moduleIdentity = ''m1'', dependencies = [dep ''A'' ''1.0'']\<rparr>,
       \<lparr>moduleIdentity = ''m2'', dependencies = [dep ''A'' ''2.0'']\<rparr>])
     = [\<lparr>identity = (''A'', None), versions = [''1.0'', ''2.0'']\<rparr>] \<and>
   resolveAcrossModules
      [\<lparr>moduleIdentity = ''m1'', dependencies = [\<lparr>name = ''A'', scope = None, version = None\<rparr>]\<rparr>,
       \<lparr>moduleIdentity = ''m2'', dependencies = [\<lparr>name = ''A'', scope = None, version = None\<rparr>]\<rparr>]
     = \<lparr>resolved = [\<lparr>name = ''A'', scope = None, version = None\<rparr>], conflicts = []\<rparr>"
proof -
  let ?ms = "[\<lparr>moduleIdentity = ''m1'', dependencies = [dep ''A'' ''2.0'', dep ''B'' ''1.0'']\<rparr>,
       \<lparr>moduleIdentity = ''m2'', dependencies = [dep ''A'' ''1.0'', dep ''B'' ''1.0'']\<rparr>]"
  have a: "(''A'', None) \<in> identity_of ` set (declared ?ms)"
    and b: "(''B'', None) \<in> identity_of ` set (declared ?ms)"
    by (simp_all add: declared_def identity_of_def dep_def)
  have va: "declared_versions (''A'', None) (declared ?ms) = [''2.0'', ''1.0'']"
    and vb: "declared_versions (''B'', None) (declared ?ms) = [''1.0'']"
    by (simp_all add: resolve_defs)
  have s: "sort [''2.0'', ''1.0''] = [''1.0'', ''2.0'' :: string]" by simp
  from resolveAcrossModules_groups [OF a] va s
  have 1: "filter (\<lambda>c. identity c = (''A'', None)) (conflicts (resolveAcrossModules ?ms))
     = [\<lparr>identity = (''A'', None), versions = [''1.0'', ''2.0'']\<rparr>]"
    by simp
  from resolveAcrossModules_groups [OF b] vb
  have 2: "filter (\<lambda>c. identity c = (''B'', None)) (conflicts (resolveAcrossModules ?ms)) = []"
    "filter (\<lambda>d. identity_of d = (''B'', None)) (resolved (resolveAcrossModules ?ms))
     = [dep ''B'' ''1.0'']"
    by (simp_all add: dep_def)
  have 3: "resolveAcrossModules
      [\<lparr>moduleIdentity = ''m1'', dependencies = [dep ''A'' ''1.0'']\<rparr>,
       \<lparr>moduleIdentity = ''m2'', dependencies = [dep ''A'' ''1.0'']\<rparr>]
     = \<lparr>resolved = [dep ''A'' ''1.0''], conflicts = []\<rparr>"
    "conflicts (resolveAcrossModules
      [\<lparr>moduleIdentity = ''m1'', dependencies = [dep ''A'' ''1.0'']\<rparr>,
       \<lparr>moduleIdentity = ''m2'', dependencies = [dep ''A'' ''2.0'']\<rparr>])
     = [\<lparr>identity = (''A'', None), versions = [''1.0'', ''2.0'']\<rparr>]"
    "resolveAcrossModules
      [\<lparr>moduleIdentity = ''m1'', dependencies = [\<lparr>name = ''A'', scope = None, version = None\<rparr>]\<rparr>,
       \<lparr>moduleIdentity = ''m2'', dependencies = [\<lparr>name = ''A'', scope = None, version = None\<rparr>]\<rparr>]
     = \<lparr>resolved = [\<lparr>name = ''A'', scope = None, version = None\<rparr>], conflicts = []\<rparr>"
    by (simp_all add: resolve_defs)
  from a 1 2 3 show ?thesis by blast
qed

end
